theory Spec2Isabelle
  imports Main "HOL-Library.Sublist"
begin

section \<open>Values, users and documents\<close>

text \<open>
  The service of \<^verbatim>\<open>rag.service.ts\<close> works on JavaScript objects. A metadata or payload
  object is a finite map from field names to scalar values; the object spread
  \<^verbatim>\<open>{ ...metadata, k: v }\<close> is a map update, later keys winning.
\<close>

datatype scalar = Str string | Num int

type_synonym meta = "string \<rightharpoonup> scalar"

text \<open>
  An embedding is an array of numbers. No function of the service computes with the
  components, so they are kept as opaque integers.
\<close>

type_synonym embedding = "int list"

record user =
  uid :: string

record document =
  pageContent :: string
  metadata :: meta

datatype error =
    Error string
  | EmbeddingFailure string
  | FetchFailure string
  | JsonSyntaxError string

subsection \<open>String helpers of the language\<close>

text \<open>
  \<^verbatim>\<open>String.prototype.trim\<close> removes leading and trailing white space. Characters are
  8-bit here, so the white space characters are TAB, LF, VT, FF, CR, SPACE and NBSP.
\<close>

definition is_space :: "char \<Rightarrow> bool" where
  "is_space c = (of_char c \<in> {9, 10, 11, 12, 13, 32, 160 :: nat})"

definition trim :: "string \<Rightarrow> string" where
  "trim s = rev (dropWhile is_space (rev (dropWhile is_space s)))"

text \<open>\<^verbatim>\<open>s.substring(a, b)\<close> for \<open>a \<le> b\<close>.\<close>

definition substring :: "string \<Rightarrow> nat \<Rightarrow> nat \<Rightarrow> string" where
  "substring s a b = take (b - a) (drop a s)"

text \<open>
  The decimal digits a template string renders for an integer: the digits of \<open>n\<close> are
  put in front of the digits collected so far.
\<close>

definition digit_char :: "nat \<Rightarrow> char" where
  "digit_char k = char_of (of_char CHR ''0'' + k)"

fun decimal :: "nat \<Rightarrow> string \<Rightarrow> string" where
  "decimal n acc =
     (if n < 10 then digit_char n # acc
      else decimal (n div 10) (digit_char (n mod 10) # acc))"

declare decimal.simps [simp del]

definition string_of_nat :: "nat \<Rightarrow> string" where
  "string_of_nat n = decimal n []"

definition string_of_int :: "int \<Rightarrow> string" where
  "string_of_int i =
     (if 0 \<le> i then string_of_nat (nat i) else CHR ''-'' # string_of_nat (nat (- i)))"

text \<open>
  What a template string \<^verbatim>\<open>${x}\<close> renders for a field that may be absent: an absent
  field is \<^verbatim>\<open>undefined\<close>.
\<close>

fun template :: "scalar option \<Rightarrow> string" where
  "template None = ''undefined''"
| "template (Some (Str s)) = s"
| "template (Some (Num n)) = string_of_int n"

text \<open>\<^verbatim>\<open>xs[i]\<close> on an array: \<^verbatim>\<open>undefined\<close> out of range.\<close>

definition nth_opt :: "'a list \<Rightarrow> nat \<Rightarrow> 'a option" where
  "nth_opt xs i = (if i < length xs then Some (xs ! i) else None)"

section \<open>The durable vector store\<close>

record point =
  pid :: string
  vector :: "embedding option"
  payload :: meta

datatype match = MatchValue scalar | MatchAny "string list"

record condition =
  key :: string
  match :: match

record qfilter =
  must :: "condition list"

record qdrant =
  points :: "point list"
  upsert_calls :: nat

text \<open>
  The request of a hybrid search, \<^verbatim>\<open>{ query, vector?, filter? }\<close>, every facet of the
  filter optional. The fields \<^verbatim>\<open>vector\<close> and \<^verbatim>\<open>filter\<close> are \<open>qvector\<close> and \<open>sfilter\<close>
  here.
\<close>

record search_filter =
  nodeTypes :: "string list option"
  urls :: "string list option"
  noteIds :: "string list option"
  resourceIds :: "string list option"
  collectionIds :: "string list option"

record hybrid_search_param =
  query :: string
  qvector :: "embedding option"
  sfilter :: "search_filter option"

section \<open>The remote reader\<close>

text \<open>
  A value of the language, as far as the reader's JSON and the cache need it:
  \<^verbatim>\<open>cache.get\<close> answers \<^verbatim>\<open>undefined\<close> for a missing key.
\<close>

datatype jsvalue =
    Undefined
  | Null
  | Bool bool
  | Number int
  | String string
  | Array "jsvalue list"
  | Object "(string \<times> jsvalue) list"

fun truthy :: "jsvalue \<Rightarrow> bool" where
  "truthy Undefined = False"
| "truthy Null = False"
| "truthy (Bool b) = b"
| "truthy (Number n) = (n \<noteq> 0)"
| "truthy (String s) = (s \<noteq> [])"
| "truthy (Array xs) = True"
| "truthy (Object fs) = True"

text \<open>
  The response of \<^verbatim>\<open>fetch\<close>: \<open>json_result\<close> is what \<^verbatim>\<open>await response.json()\<close> yields,
  the parsed payload or the parser's exception; \<open>body\<close> is the raw payload, which
  only \<^verbatim>\<open>response.json()\<close> reads; \<open>text_method\<close> is the string that the expression
  \<^verbatim>\<open>${response.text}\<close> renders, the method itself and not its result.
\<close>

record response =
  status :: nat
  statusText :: string
  body :: string
  json_result :: "error + jsvalue"
  text_method :: string

section \<open>Collaborators of the service\<close>

text \<open>
  The service is given its collaborators: the markdown cleaner and the text splitter
  behind \<^verbatim>\<open>chunkText\<close>, the embedding provider (both calls may fail), the id
  generator, the size estimate, the similarity and the result limit of the stores, and
  the network (\<^verbatim>\<open>fetch\<close>, which may fail).
\<close>

record deps =
  cleanMarkdownForIngest :: "string \<Rightarrow> string"
  splitText :: "string \<Rightarrow> string list"
  embedDocuments :: "string list \<Rightarrow> error + embedding list"
  embedQuery :: "string \<Rightarrow> error + embedding"
  genResourceUuid :: "string \<Rightarrow> string"
  estimatePointsSize :: "point list \<Rightarrow> nat"
  similarity :: "embedding \<Rightarrow> embedding option \<Rightarrow> int"
  topK :: nat
  fetch :: "string \<Rightarrow> error + response"

definition chunkText :: "deps \<Rightarrow> string \<Rightarrow> string list" where
  "chunkText d text = splitText d (cleanMarkdownForIngest d text)"

section \<open>The ephemeral index\<close>

text \<open>
  The callback of \<^verbatim>\<open>chunks.map\<close> in \<^verbatim>\<open>inMemoryIndexContent\<close>, with the running
  \<^verbatim>\<open>startIndex\<close> as an argument.
\<close>

fun offset_documents :: "meta \<Rightarrow> string \<Rightarrow> nat \<Rightarrow> string list \<Rightarrow> document list" where
  "offset_documents md u startIndex [] = []"
| "offset_documents md u startIndex (chunk # chunks) =
     \<lparr>pageContent = trim chunk,
      metadata = md(''tenantId'' \<mapsto> Str u,
                    ''start'' \<mapsto> Num (int startIndex),
                    ''end'' \<mapsto> Num (int (startIndex + length (trim chunk))))\<rparr>
     # offset_documents md u (startIndex + length (trim chunk)) chunks"

definition inMemoryIndexContent_documents :: "deps \<Rightarrow> user \<Rightarrow> document \<Rightarrow> bool \<Rightarrow> document list" where
  "inMemoryIndexContent_documents d usr doc needChunk =
     (let chunks = (if needChunk then chunkText d (pageContent doc) else [pageContent doc])
      in offset_documents (metadata doc) (uid usr) 0 chunks)"

text \<open>
  Modelled from the spec: the ephemeral vector index (\<^verbatim>\<open>MemoryVectorStore\<close>), section
  4.4. \<open>add\<close> embeds the documents' texts in one batch and appends the documents with
  their embeddings; \<open>search\<close> keeps the documents satisfying the predicate, ranks them
  by similarity to the embedded query, descending, and returns at most \<open>k\<close>.
\<close>

type_synonym memory_store = "(document \<times> embedding) list"

definition addDocuments :: "deps \<Rightarrow> document list \<Rightarrow> memory_store \<Rightarrow> error + memory_store" where
  "addDocuments d docs ms =
     (case embedDocuments d (map pageContent docs) of
        Inl e \<Rightarrow> Inl e
      | Inr vs \<Rightarrow> Inr (ms @ zip docs vs))"

definition similaritySearch ::
  "deps \<Rightarrow> string \<Rightarrow> nat \<Rightarrow> (document \<Rightarrow> bool) \<Rightarrow> memory_store \<Rightarrow> error + document list" where
  "similaritySearch d qry k flt ms =
     (case embedQuery d qry of
        Inl e \<Rightarrow> Inl e
      | Inr qv \<Rightarrow>
          Inr (take k (map fst
            (sort_key (\<lambda>e. - similarity d qv (Some (snd e)))
               (filter (\<lambda>e. flt (fst e)) ms)))))"

definition inMemoryIndexContent ::
  "deps \<Rightarrow> user \<Rightarrow> document \<Rightarrow> bool \<Rightarrow> memory_store \<Rightarrow> error + memory_store" where
  "inMemoryIndexContent d usr doc needChunk ms =
     addDocuments d (inMemoryIndexContent_documents d usr doc needChunk) ms"

definition inMemoryIndexDocuments ::
  "deps \<Rightarrow> user \<Rightarrow> document list \<Rightarrow> memory_store \<Rightarrow> error + memory_store" where
  "inMemoryIndexDocuments d usr docs ms =
     addDocuments d
       (map (\<lambda>item. item\<lparr>metadata := (metadata item)(''tenantId'' \<mapsto> Str (uid usr))\<rparr>) docs) ms"

definition inMemorySearch ::
  "deps \<Rightarrow> user \<Rightarrow> string \<Rightarrow> nat \<Rightarrow> (document \<Rightarrow> bool) \<Rightarrow> memory_store \<Rightarrow> error + document list" where
  "inMemorySearch d usr qry k flt ms =
     (let wrapperFilter = (\<lambda>doc. flt doc \<and> metadata doc ''tenantId'' = Some (Str (uid usr)))
      in similaritySearch d qry k wrapperFilter ms)"

section \<open>The durable path\<close>

text \<open>
  Modelled from the spec: the durable vector store (\<^verbatim>\<open>QdrantService\<close>), section 4.5 and
  the filter grammar of section 6. A filter is a conjunction of conditions on payload
  fields, each an equality or an "any of these values"; \<open>upsert\<close> replaces the point of
  the same id or adds the point; \<open>delete\<close> removes the points matching the filter;
  \<open>search\<close> ranks the matching points by similarity to the query vector, descending,
  and returns at most \<open>topK\<close> of them. A request without a vector finds nothing;
  \<^verbatim>\<open>retrieve\<close> never sends one.
\<close>

fun matches :: "match \<Rightarrow> scalar option \<Rightarrow> bool" where
  "matches (MatchValue v) x = (x = Some v)"
| "matches (MatchAny vs) (Some (Str s)) = (s \<in> set vs)"
| "matches (MatchAny vs) x = False"

definition satisfies :: "point \<Rightarrow> condition \<Rightarrow> bool" where
  "satisfies p c = matches (match c) (payload p (key c))"

definition matches_filter :: "qfilter \<Rightarrow> point \<Rightarrow> bool" where
  "matches_filter f p = list_all (satisfies p) (must f)"

definition upsert :: "point \<Rightarrow> point list \<Rightarrow> point list" where
  "upsert p ps =
     (if pid p \<in> set (map pid ps) then map (\<lambda>q. if pid q = pid p then p else q) ps
      else ps @ [p])"

definition batchSaveData :: "point list \<Rightarrow> qdrant \<Rightarrow> qdrant" where
  "batchSaveData pts q =
     q\<lparr>points := fold upsert pts (points q), upsert_calls := Suc (upsert_calls q)\<rparr>"

definition batchDelete :: "qfilter \<Rightarrow> qdrant \<Rightarrow> qdrant" where
  "batchDelete f q = q\<lparr>points := filter (\<lambda>p. \<not> matches_filter f p) (points q)\<rparr>"

definition search :: "deps \<Rightarrow> hybrid_search_param \<Rightarrow> qfilter \<Rightarrow> qdrant \<Rightarrow> point list" where
  "search d param f q =
     (case qvector param of
        None \<Rightarrow> []
      | Some qv \<Rightarrow>
          take (topK d)
            (sort_key (\<lambda>p. - similarity d qv (vector p))
               (filter (matches_filter f) (points q))))"

subsection \<open>indexContent\<close>

definition docId :: "meta \<Rightarrow> scalar option" where
  "docId md = (if md ''nodeType'' = Some (Str ''note'') then md ''noteId'' else md ''resourceId'')"

text \<open>The object literal pushed for index \<open>i\<close> in the loop of \<^verbatim>\<open>indexContent\<close>.\<close>

definition index_point ::
  "deps \<Rightarrow> user \<Rightarrow> meta \<Rightarrow> string list \<Rightarrow> embedding list \<Rightarrow> nat \<Rightarrow> point" where
  "index_point d usr md chunks chunkEmbeds i =
     \<lparr>pid = genResourceUuid d (template (docId md) @ ''-'' @ string_of_nat i),
      vector = nth_opt chunkEmbeds i,
      payload = md(''seq'' \<mapsto> Num (int i),
                   ''content'' \<mapsto> Str (chunks ! i),
                   ''tenantId'' \<mapsto> Str (uid usr))\<rparr>"

text \<open>The \<^verbatim>\<open>for\<close> loop of \<^verbatim>\<open>indexContent\<close>, from index \<open>i\<close> with the points pushed so far.\<close>

function points_loop ::
  "deps \<Rightarrow> user \<Rightarrow> meta \<Rightarrow> string list \<Rightarrow> embedding list \<Rightarrow> nat \<Rightarrow> point list \<Rightarrow> point list" where
  "points_loop d usr md chunks chunkEmbeds i pts =
     (if i < length chunks then
        points_loop d usr md chunks chunkEmbeds (Suc i)
          (pts @ [index_point d usr md chunks chunkEmbeds i])
      else pts)"
  by pat_completeness auto
termination
  by (relation "measure (\<lambda>(d, usr, md, chunks, chunkEmbeds, i, pts). length chunks - i)") auto

declare points_loop.simps [simp del]

text \<open>The array \<^verbatim>\<open>points\<close> that \<^verbatim>\<open>indexContent\<close> hands to the store.\<close>

definition indexContent_points :: "deps \<Rightarrow> user \<Rightarrow> document \<Rightarrow> embedding list \<Rightarrow> point list" where
  "indexContent_points d usr doc chunkEmbeds =
     points_loop d usr (metadata doc) (chunkText d (pageContent doc)) chunkEmbeds 0 []"

definition indexContent :: "deps \<Rightarrow> user \<Rightarrow> document \<Rightarrow> qdrant \<Rightarrow> (error + nat) \<times> qdrant" where
  "indexContent d usr doc q =
     (let chunks = chunkText d (pageContent doc) in
      case embedDocuments d chunks of
        Inl e \<Rightarrow> (Inl e, q)
      | Inr chunkEmbeds \<Rightarrow>
          (let pts = indexContent_points d usr doc chunkEmbeds
           in (Inr (estimatePointsSize d pts), batchSaveData pts q)))"

subsection \<open>deleteResourceNodes and deleteNoteNodes\<close>

definition deleteResourceNodes :: "user \<Rightarrow> string \<Rightarrow> qdrant \<Rightarrow> qdrant" where
  "deleteResourceNodes usr resourceId q =
     batchDelete
       \<lparr>must = [\<lparr>key = ''tenantId'', match = MatchValue (Str (uid usr))\<rparr>,
                \<lparr>key = ''resourceId'', match = MatchValue (Str resourceId)\<rparr>]\<rparr> q"

definition deleteNoteNodes :: "user \<Rightarrow> string \<Rightarrow> qdrant \<Rightarrow> qdrant" where
  "deleteNoteNodes usr noteId q =
     batchDelete
       \<lparr>must = [\<lparr>key = ''tenantId'', match = MatchValue (Str (uid usr))\<rparr>,
                \<lparr>key = ''noteId'', match = MatchValue (Str noteId)\<rparr>]\<rparr> q"

subsection \<open>retrieve\<close>

text \<open>\<^verbatim>\<open>param.filter?.facet\<close>: absent when the filter or the facet is.\<close>

definition facet :: "hybrid_search_param \<Rightarrow> (search_filter \<Rightarrow> string list option) \<Rightarrow> string list option" where
  "facet param sel = (case sfilter param of None \<Rightarrow> None | Some f \<Rightarrow> sel f)"

text \<open>
  One \<^verbatim>\<open>if (xs?.length > 0) conditions.push({ key, match: { any: xs } })\<close>; the comparison
  of \<^verbatim>\<open>undefined\<close> with 0 is false.
\<close>

definition push_any :: "string \<Rightarrow> string list option \<Rightarrow> condition list \<Rightarrow> condition list" where
  "push_any k xs conditions =
     (case xs of
        None \<Rightarrow> conditions
      | Some l \<Rightarrow>
          if length l > 0 then conditions @ [\<lparr>key = k, match = MatchAny l\<rparr>] else conditions)"

definition retrieve_conditions :: "user \<Rightarrow> hybrid_search_param \<Rightarrow> condition list" where
  "retrieve_conditions usr param =
     (let c0 = [\<lparr>key = ''tenantId'', match = MatchValue (Str (uid usr))\<rparr>];
          c1 = push_any ''nodeType'' (facet param nodeTypes) c0;
          c2 = push_any ''url'' (facet param urls) c1;
          c3 = push_any ''noteId'' (facet param noteIds) c2;
          c4 = push_any ''resourceId'' (facet param resourceIds) c3;
          c5 = push_any ''collectionId'' (facet param collectionIds) c4
      in c5)"

text \<open>\<^verbatim>\<open>if (!param.vector) param.vector = await embedQuery(param.query)\<close>: an array is truthy.\<close>

definition with_vector :: "deps \<Rightarrow> hybrid_search_param \<Rightarrow> error + hybrid_search_param" where
  "with_vector d param =
     (case qvector param of
        Some v \<Rightarrow> Inr param
      | None \<Rightarrow>
          (case embedQuery d (query param) of
             Inl e \<Rightarrow> Inl e
           | Inr v \<Rightarrow> Inr (param\<lparr>qvector := Some v\<rparr>)))"

definition retrieve :: "deps \<Rightarrow> user \<Rightarrow> hybrid_search_param \<Rightarrow> qdrant \<Rightarrow> error + meta list" where
  "retrieve d usr param q =
     (case with_vector d param of
        Inl e \<Rightarrow> Inl e
      | Inr param' \<Rightarrow>
          Inr (map payload (search d param' \<lparr>must = retrieve_conditions usr param'\<rparr> q)))"

section \<open>The remote fetch cache\<close>

text \<open>
  Modelled from the spec: the cache (\<^verbatim>\<open>LRUCache\<close> with \<^verbatim>\<open>max: 1000\<close>), section 3: keyed
  by URL, bounded, least recently used evicted. The entries are kept most recently
  used first; a read that finds its key makes the entry the most recent.
\<close>

type_synonym lru = "(string \<times> jsvalue) list"

definition cache_max :: nat where
  "cache_max = 1000"

definition lru_get :: "string \<Rightarrow> lru \<Rightarrow> jsvalue \<times> lru" where
  "lru_get k c =
     (case map_of c k of
        None \<Rightarrow> (Undefined, c)
      | Some v \<Rightarrow> (v, (k, v) # filter (\<lambda>e. fst e \<noteq> k) c))"

definition lru_set :: "string \<Rightarrow> jsvalue \<Rightarrow> lru \<Rightarrow> lru" where
  "lru_set k v c = take cache_max ((k, v) # filter (\<lambda>e. fst e \<noteq> k) c)"

record crawl_state =
  cache :: lru
  requests :: "string list"

definition READER_URL :: string where
  "READER_URL = ''https://r.jina.ai/''"

definition crawlFromRemoteReader ::
  "deps \<Rightarrow> string \<Rightarrow> crawl_state \<Rightarrow> (error + jsvalue) \<times> crawl_state" where
  "crawlFromRemoteReader d url st =
     (case lru_get url (cache st) of (hit, c1) \<Rightarrow>
        if truthy hit then
          (case lru_get url c1 of (v, c2) \<Rightarrow> (Inr v, st\<lparr>cache := c2\<rparr>))
        else
          (let st1 = st\<lparr>cache := c1, requests := requests st @ [READER_URL @ url]\<rparr> in
           case fetch d (READER_URL @ url) of
             Inl e \<Rightarrow> (Inl e, st1)
           | Inr response \<Rightarrow>
               if status response \<noteq> 200 then
                 (Inl (Error (''call remote reader failed: '' @ string_of_nat (status response)
                        @ '' '' @ statusText response @ '' '' @ text_method response)), st1)
               else
                 (case json_result response of
                    Inl e \<Rightarrow> (Inl e, st1)
                  | Inr data \<Rightarrow>
                      if \<not> truthy data then
                        (Inl (Error (''invalid data from remote reader: ''
                               @ text_method response)), st1)
                      else (Inr data, st1\<lparr>cache := lru_set url data c1\<rparr>))))"

section \<open>Notions the properties are stated with\<close>

text \<open>The chunks \<^verbatim>\<open>inMemoryIndexContent\<close> works on, and the offsets of their trimmed texts.\<close>

definition chunks_of :: "deps \<Rightarrow> document \<Rightarrow> bool \<Rightarrow> string list" where
  "chunks_of d doc needChunk =
     (if needChunk then chunkText d (pageContent doc) else [pageContent doc])"

definition trimmed_text :: "string list \<Rightarrow> string" where
  "trimmed_text chunks = concat (map trim chunks)"

definition trimmed_offset :: "string list \<Rightarrow> nat \<Rightarrow> nat" where
  "trimmed_offset chunks i = length (trimmed_text (take i chunks))"

text \<open>
  The filter of \<^verbatim>\<open>retrieve\<close> in the words of the specification: the tenant equality
  first, then one any-of condition for each populated facet, in the order node types,
  urls, note ids, resource ids, collection ids.
\<close>

definition spec_facet :: "search_filter option \<Rightarrow> string \<times> (search_filter \<Rightarrow> string list option) \<Rightarrow> condition list" where
  "spec_facet f ks =
     (case Option.bind f (snd ks) of
        Some (x # xs) \<Rightarrow> [\<lparr>key = fst ks, match = MatchAny (x # xs)\<rparr>]
      | _ \<Rightarrow> [])"

definition spec_conditions :: "user \<Rightarrow> search_filter option \<Rightarrow> condition list" where
  "spec_conditions usr f =
     \<lparr>key = ''tenantId'', match = MatchValue (Str (uid usr))\<rparr>
     # concat (map (spec_facet f)
         [(''nodeType'', nodeTypes), (''url'', urls), (''noteId'', noteIds),
          (''resourceId'', resourceIds), (''collectionId'', collectionIds)])"

text \<open>A run of fetches, each against the network of its moment.\<close>

fun crawl_all :: "(deps \<times> string) list \<Rightarrow> crawl_state \<Rightarrow> crawl_state" where
  "crawl_all [] st = st"
| "crawl_all (du # dus) st = crawl_all dus (snd (crawlFromRemoteReader (fst du) (snd du) st))"

text \<open>
  The entry \<open>(u, v)\<close> is the first one of key \<open>u\<close> in the cache and at most \<open>n\<close> entries
  precede it.
\<close>

definition cached_within :: "nat \<Rightarrow> string \<Rightarrow> jsvalue \<Rightarrow> lru \<Rightarrow> bool" where
  "cached_within n u v c =
     (\<exists>pre post. c = pre @ (u, v) # post \<and> u \<notin> fst ` set pre \<and> length pre \<le> n)"

text \<open>An error carries a text when its message contains it.\<close>

fun message :: "error \<Rightarrow> string" where
  "message (Error m) = m"
| "message (EmbeddingFailure m) = m"
| "message (FetchFailure m) = m"
| "message (JsonSyntaxError m) = m"

definition carries :: "error \<Rightarrow> string \<Rightarrow> bool" where
  "carries e s = sublist s (message e)"

section \<open>A concrete environment\<close>

text \<open>
  Collaborators to run the service on concrete inputs: no cleaning, a splitter cutting
  after four characters, embeddings that succeed, an unreachable network.
\<close>

definition demo_deps :: deps where
  "demo_deps =
     \<lparr>cleanMarkdownForIngest = (\<lambda>s. s),
      splitText = (\<lambda>s. [take 4 s, drop 4 s]),
      embedDocuments = (\<lambda>ts. Inr (map (\<lambda>t. [int (length t)]) ts)),
      embedQuery = (\<lambda>t. Inr [int (length t)]),
      genResourceUuid = (\<lambda>s. ''uuid:'' @ s),
      estimatePointsSize = length,
      similarity = (\<lambda>a b. 0),
      topK = 10,
      fetch = (\<lambda>u. Inl (FetchFailure ''offline''))\<rparr>"

definition demo_point :: "string \<Rightarrow> string \<Rightarrow> string \<Rightarrow> point" where
  "demo_point i tenant rid =
     \<lparr>pid = i, vector = Some [1],
      payload = [''tenantId'' \<mapsto> Str tenant, ''resourceId'' \<mapsto> Str rid]\<rparr>"

definition demo_store :: qdrant where
  "demo_store =
     \<lparr>points = [demo_point ''p1'' ''u1'' ''r1'', demo_point ''p2'' ''u2'' ''r1'',
                 demo_point ''p3'' ''u1'' ''r2''],
      upsert_calls = 0\<rparr>"

definition empty_crawl_state :: crawl_state where
  "empty_crawl_state = \<lparr>cache = [], requests = []\<rparr>"

definition demo_response :: "nat \<Rightarrow> string \<Rightarrow> string \<Rightarrow> error + jsvalue \<Rightarrow> response" where
  "demo_response st stx b j =
     \<lparr>status = st, statusText = stx, body = b, json_result = j,
      text_method = ''function text() { [native code] }''\<rparr>"

section \<open>Chunk offsets of the ephemeral index\<close>

lemma offset_documents_length: "length (offset_documents md u s cs) = length cs"
  by (induction cs arbitrary: s) simp_all

lemma offset_documents_nth:
  "i < length cs \<Longrightarrow>
   offset_documents md u s cs ! i =
     \<lparr>pageContent = trim (cs ! i),
      metadata = md(''tenantId'' \<mapsto> Str u,
                    ''start'' \<mapsto> Num (int (s + trimmed_offset cs i)),
                    ''end'' \<mapsto> Num (int (s + trimmed_offset cs (Suc i))))\<rparr>"
proof (induction cs arbitrary: s i)
  case Nil
  then show ?case by simp
next
  case (Cons c cs)
  show ?case
  proof (cases i)
    case 0
    have "trimmed_offset (c # cs) 0 = 0" "trimmed_offset (c # cs) (Suc 0) = length (trim c)"
      by (simp_all add: trimmed_offset_def trimmed_text_def)
    with 0 show ?thesis by (simp add: fun_eq_iff)
  next
    case (Suc j)
    with Cons.prems have j: "j < length cs" by simp
    have "trimmed_offset (c # cs) (Suc j) = length (trim c) + trimmed_offset cs j"
      "trimmed_offset (c # cs) (Suc (Suc j)) = length (trim c) + trimmed_offset cs (Suc j)"
      by (simp_all add: trimmed_offset_def trimmed_text_def)
    with Cons.IH [OF j, of "s + length (trim c)"] Suc
    show ?thesis by (simp add: add.assoc fun_eq_iff)
  qed
qed

lemma trimmed_offset_Suc:
  "i < length cs \<Longrightarrow> trimmed_offset cs (Suc i) = trimmed_offset cs i + length (trim (cs ! i))"
  by (simp add: trimmed_offset_def trimmed_text_def take_Suc_conv_app_nth)

lemma trimmed_slice:
  "i < length cs \<Longrightarrow>
   substring (trimmed_text cs) (trimmed_offset cs i) (trimmed_offset cs (Suc i)) = trim (cs ! i)"
proof -
  assume i: "i < length cs"
  have split: "cs = take i cs @ cs ! i # drop (Suc i) cs"
    using i by (simp add: id_take_nth_drop)
  have "trimmed_text cs = trimmed_text (take i cs) @ trim (cs ! i) @ trimmed_text (drop (Suc i) cs)"
    by (subst split) (simp add: trimmed_text_def)
  then show ?thesis
    using i by (simp add: substring_def trimmed_offset_Suc) (simp add: trimmed_offset_def)
qed

text \<open>
  Claim C10, as the code has it. The documents \<^verbatim>\<open>inMemoryIndexContent\<close> stores have the
  trimmed chunks as contents, and \<open>start\<close> and \<open>end\<close> are offsets into the concatenation
  of the trimmed chunks: the first interval starts at 0, every interval ends where the
  next one starts, the last one ends at the length of that concatenation, \<open>end - start\<close>
  is the length of the stored content, and the slice of the concatenation between
  \<open>start\<close> and \<open>end\<close> is the stored content.
\<close>

theorem chunk_offsets_tile_trimmed_text:
  fixes d :: deps and usr :: user and doc :: document and needChunk :: bool
  shows
  "length (inMemoryIndexContent_documents d usr doc needChunk) = length (chunks_of d doc needChunk)
   \<and> trimmed_offset (chunks_of d doc needChunk) 0 = 0
   \<and> trimmed_offset (chunks_of d doc needChunk) (length (chunks_of d doc needChunk))
       = length (trimmed_text (chunks_of d doc needChunk))
   \<and> (\<forall>i < length (chunks_of d doc needChunk).
        pageContent (inMemoryIndexContent_documents d usr doc needChunk ! i)
          = trim (chunks_of d doc needChunk ! i)
      \<and> metadata (inMemoryIndexContent_documents d usr doc needChunk ! i) ''start''
          = Some (Num (int (trimmed_offset (chunks_of d doc needChunk) i)))
      \<and> metadata (inMemoryIndexContent_documents d usr doc needChunk ! i) ''end''
          = Some (Num (int (trimmed_offset (chunks_of d doc needChunk) (Suc i))))
      \<and> trimmed_offset (chunks_of d doc needChunk) (Suc i)
          = trimmed_offset (chunks_of d doc needChunk) i
            + length (pageContent (inMemoryIndexContent_documents d usr doc needChunk ! i))
      \<and> substring (trimmed_text (chunks_of d doc needChunk))
            (trimmed_offset (chunks_of d doc needChunk) i)
            (trimmed_offset (chunks_of d doc needChunk) (Suc i))
          = pageContent (inMemoryIndexContent_documents d usr doc needChunk ! i))"
proof -
  define cs where "cs = chunks_of d doc needChunk"
  have docs: "inMemoryIndexContent_documents d usr doc needChunk
                = offset_documents (metadata doc) (uid usr) 0 cs"
    by (simp add: inMemoryIndexContent_documents_def chunks_of_def cs_def)
  have len: "length (offset_documents (metadata doc) (uid usr) 0 cs) = length cs"
    by (rule offset_documents_length)
  have zero: "trimmed_offset cs 0 = 0"
    by (simp add: trimmed_offset_def trimmed_text_def)
  have full: "trimmed_offset cs (length cs) = length (trimmed_text cs)"
    by (simp add: trimmed_offset_def)
  have each: "pageContent (offset_documents (metadata doc) (uid usr) 0 cs ! i) = trim (cs ! i)
      \<and> metadata (offset_documents (metadata doc) (uid usr) 0 cs ! i) ''start''
          = Some (Num (int (trimmed_offset cs i)))
      \<and> metadata (offset_documents (metadata doc) (uid usr) 0 cs ! i) ''end''
          = Some (Num (int (trimmed_offset cs (Suc i))))
      \<and> trimmed_offset cs (Suc i)
          = trimmed_offset cs i + length (pageContent (offset_documents (metadata doc) (uid usr) 0 cs ! i))
      \<and> substring (trimmed_text cs) (trimmed_offset cs i) (trimmed_offset cs (Suc i))
          = pageContent (offset_documents (metadata doc) (uid usr) 0 cs ! i)"
    if "i < length cs" for i
    using trimmed_offset_Suc [OF that] trimmed_slice [OF that]
    by (simp add: offset_documents_nth [OF that])
  from len zero full each show ?thesis
    unfolding docs cs_def [symmetric] by blast
qed

text \<open>The theorem of claim C10 at a document of two chunks.\<close>

theorem chunk_offsets_tile_trimmed_text_witness:
  "length (inMemoryIndexContent_documents demo_deps \<lparr>uid = ''u1''\<rparr>
            \<lparr>pageContent = ''ab  cd '', metadata = Map.empty\<rparr> True) = 2
   \<and> pageContent (inMemoryIndexContent_documents demo_deps \<lparr>uid = ''u1''\<rparr>
            \<lparr>pageContent = ''ab  cd '', metadata = Map.empty\<rparr> True ! 1) = ''cd''
   \<and> metadata (inMemoryIndexContent_documents demo_deps \<lparr>uid = ''u1''\<rparr>
            \<lparr>pageContent = ''ab  cd '', metadata = Map.empty\<rparr> True ! 1) ''start'' = Some (Num 2)
   \<and> metadata (inMemoryIndexContent_documents demo_deps \<lparr>uid = ''u1''\<rparr>
            \<lparr>pageContent = ''ab  cd '', metadata = Map.empty\<rparr> True ! 1) ''end'' = Some (Num 4)"
proof -
  have cs: "chunks_of demo_deps \<lparr>pageContent = ''ab  cd '', metadata = Map.empty\<rparr> True
              = [''ab  '', ''cd '']"
    by (simp add: chunks_of_def chunkText_def demo_deps_def)
  have t: "trim ''ab  '' = ''ab''" "trim ''cd '' = ''cd''"
    by (simp_all add: trim_def is_space_def)
  have off: "trimmed_offset [''ab  '', ''cd ''] (Suc 0) = 2"
    "trimmed_offset [''ab  '', ''cd ''] (Suc (Suc 0)) = 4"
    by (simp_all add: trimmed_offset_def trimmed_text_def t)
  note th = chunk_offsets_tile_trimmed_text [of demo_deps "\<lparr>uid = ''u1''\<rparr>"
      "\<lparr>pageContent = ''ab  cd '', metadata = Map.empty\<rparr>" True, unfolded cs]
  from th have len: "length (inMemoryIndexContent_documents demo_deps \<lparr>uid = ''u1''\<rparr>
            \<lparr>pageContent = ''ab  cd '', metadata = Map.empty\<rparr> True) = 2"
    by simp
  from th have "1 < length [''ab  '', ''cd ''] \<longrightarrow>
      pageContent (inMemoryIndexContent_documents demo_deps \<lparr>uid = ''u1''\<rparr>
            \<lparr>pageContent = ''ab  cd '', metadata = Map.empty\<rparr> True ! 1) = trim ([''ab  '', ''cd ''] ! 1)
      \<and> metadata (inMemoryIndexContent_documents demo_deps \<lparr>uid = ''u1''\<rparr>
            \<lparr>pageContent = ''ab  cd '', metadata = Map.empty\<rparr> True ! 1) ''start''
          = Some (Num (int (trimmed_offset [''ab  '', ''cd ''] 1)))
      \<and> metadata (inMemoryIndexContent_documents demo_deps \<lparr>uid = ''u1''\<rparr>
            \<lparr>pageContent = ''ab  cd '', metadata = Map.empty\<rparr> True ! 1) ''end''
          = Some (Num (int (trimmed_offset [''ab  '', ''cd ''] (Suc 1))))"
    by blast
  with len show ?thesis
    by (simp add: t off)
qed

text \<open>
  Claim C10 as stated fails: the offsets are not offsets into the original content. For
  the content \<open>'' a''\<close> indexed without chunking, the stored chunk is \<open>''a''\<close> with
  \<open>start = 0\<close> and \<open>end = 1\<close>, and the original content between 0 and 1 is a space.
\<close>

theorem offsets_into_original_counterexample:
  "metadata (hd (inMemoryIndexContent_documents demo_deps \<lparr>uid = ''u1''\<rparr>
       \<lparr>pageContent = '' a'', metadata = Map.empty\<rparr> False)) ''start'' = Some (Num 0)
   \<and> metadata (hd (inMemoryIndexContent_documents demo_deps \<lparr>uid = ''u1''\<rparr>
       \<lparr>pageContent = '' a'', metadata = Map.empty\<rparr> False)) ''end'' = Some (Num 1)
   \<and> pageContent (hd (inMemoryIndexContent_documents demo_deps \<lparr>uid = ''u1''\<rparr>
       \<lparr>pageContent = '' a'', metadata = Map.empty\<rparr> False)) = ''a''
   \<and> substring '' a'' 0 1 \<noteq> ''a''"
  by (simp add: inMemoryIndexContent_documents_def trim_def is_space_def substring_def)

section \<open>Ingestion into the durable store\<close>

lemma points_loop_closed:
  "i \<le> length chunks \<Longrightarrow>
   points_loop d usr md chunks embeds i pts =
     pts @ map (index_point d usr md chunks embeds) [i..<length chunks]"
proof (induction d usr md chunks embeds i pts rule: points_loop.induct)
  case (1 d usr md chunks embeds i pts)
  show ?case
  proof (cases "i < length chunks")
    case True
    then have "[i..<length chunks] = i # [Suc i..<length chunks]"
      by (simp add: upt_conv_Cons)
    with True "1.IH" show ?thesis
      by (subst points_loop.simps) simp
  next
    case False
    with "1.prems" show ?thesis
      by (subst points_loop.simps) simp
  qed
qed

lemma indexContent_points_length:
  "length (indexContent_points d usr doc embeds) = length (chunkText d (pageContent doc))"
  by (simp add: indexContent_points_def points_loop_closed)

lemma indexContent_points_nth:
  "i < length (chunkText d (pageContent doc)) \<Longrightarrow>
   indexContent_points d usr doc embeds ! i =
     \<lparr>pid = genResourceUuid d (template (docId (metadata doc)) @ ''-'' @ string_of_nat i),
      vector = nth_opt embeds i,
      payload = (metadata doc)(''seq'' \<mapsto> Num (int i),
                   ''content'' \<mapsto> Str (chunkText d (pageContent doc) ! i),
                   ''tenantId'' \<mapsto> Str (uid usr))\<rparr>"
  by (simp add: indexContent_points_def points_loop_closed index_point_def)

lemma upsert_ids:
  "map pid (upsert p ps) = (if pid p \<in> set (map pid ps) then map pid ps else map pid ps @ [pid p])"
proof -
  have "map pid (map (\<lambda>q. if pid q = pid p then p else q) ps) = map pid ps"
    by (induction ps) simp_all
  then show ?thesis by (simp add: upsert_def)
qed

lemma upsert_distinct: "distinct (map pid ps) \<Longrightarrow> distinct (map pid (upsert p ps))"
  by (simp add: upsert_ids)

lemma upsert_member:
  "x \<in> set (upsert p ps) \<Longrightarrow> x = p \<or> (x \<in> set ps \<and> pid x \<noteq> pid p)"
  by (auto simp: upsert_def image_iff split: if_splits)

lemma fold_upsert_distinct:
  "distinct (map pid ps) \<Longrightarrow> distinct (map pid (fold upsert pts ps))"
  by (induction pts arbitrary: ps) (simp_all add: upsert_distinct)

lemma fold_upsert_ids:
  "set (map pid (fold upsert pts ps)) = set (map pid ps) \<union> set (map pid pts)"
proof (induction pts arbitrary: ps)
  case Nil
  then show ?case by simp
next
  case (Cons p pts)
  have "set (map pid (upsert p ps)) = insert (pid p) (set (map pid ps))"
    by (auto simp: upsert_ids)
  with Cons.IH [of "upsert p ps"] show ?case by auto
qed

lemma fold_upsert_member:
  "x \<in> set (fold upsert pts ps) \<Longrightarrow> x \<in> set pts \<or> (x \<in> set ps \<and> pid x \<notin> pid ` set pts)"
proof (induction pts arbitrary: ps)
  case Nil
  then show ?case by simp
next
  case (Cons p pts)
  from Cons.prems have "x \<in> set (fold upsert pts (upsert p ps))" by simp
  from Cons.IH [OF this] show ?case
    using upsert_member [of x p ps] by auto
qed

lemma count_one_of_distinct:
  "distinct (map f xs) \<Longrightarrow> k \<in> f ` set xs \<Longrightarrow> length (filter (\<lambda>x. f x = k) xs) = 1"
proof (induction xs)
  case Nil
  then show ?case by simp
next
  case (Cons x xs)
  show ?case
  proof (cases "f x = k")
    case True
    with Cons.prems have "filter (\<lambda>y. f y = k) xs = []"
      by (auto simp: filter_empty_conv image_iff)
    with True show ?thesis by simp
  next
    case False
    with Cons show ?thesis by auto
  qed
qed

lemma batchSaveData_one_per_id:
  assumes "distinct (map pid (points q))" and "p \<in> set pts"
  shows "length (filter (\<lambda>x. pid x = pid p) (points (batchSaveData pts q))) = 1
         \<and> (\<forall>x \<in> set (points (batchSaveData pts q)). pid x = pid p \<longrightarrow> x \<in> set pts)"
proof -
  have pts: "points (batchSaveData pts q) = fold upsert pts (points q)"
    by (simp add: batchSaveData_def)
  have "distinct (map pid (fold upsert pts (points q)))"
    using assms(1) by (rule fold_upsert_distinct)
  moreover have "pid p \<in> pid ` set (fold upsert pts (points q))"
    using fold_upsert_ids [of pts "points q"] assms(2) by auto
  ultimately have one: "length (filter (\<lambda>x. pid x = pid p) (fold upsert pts (points q))) = 1"
    by (rule count_one_of_distinct)
  have "x \<in> set pts" if "x \<in> set (fold upsert pts (points q))" "pid x = pid p" for x
    using fold_upsert_member [OF that(1)] that(2) assms(2) by auto
  with one show ?thesis unfolding pts by blast
qed

lemma batchSaveData_distinct:
  "distinct (map pid (points q)) \<Longrightarrow> distinct (map pid (points (batchSaveData pts q)))"
  by (simp add: batchSaveData_def fold_upsert_distinct)

text \<open>
  Claim C3. When the batched embedding call of \<^verbatim>\<open>indexContent\<close> fails, \<^verbatim>\<open>indexContent\<close>
  fails with that error and the durable store is as it was: no point was upserted and
  the store received no upsert call.
\<close>

theorem embedding_failure_aborts_before_write:
  "embedDocuments d (chunkText d (pageContent doc)) = Inl e \<Longrightarrow>
   indexContent d usr doc q = (Inl e, q)"
  by (simp add: indexContent_def)

text \<open>The theorem of claim C3 at a provider that times out.\<close>

theorem embedding_failure_aborts_before_write_witness:
  "embedDocuments (demo_deps\<lparr>embedDocuments := \<lambda>ts. Inl (EmbeddingFailure ''timeout'')\<rparr>)
     (chunkText (demo_deps\<lparr>embedDocuments := \<lambda>ts. Inl (EmbeddingFailure ''timeout'')\<rparr>)
        (pageContent \<lparr>pageContent = ''abcdefgh'', metadata = [''nodeType'' \<mapsto> Str ''note'']\<rparr>))
     = Inl (EmbeddingFailure ''timeout'')
   \<and> indexContent (demo_deps\<lparr>embedDocuments := \<lambda>ts. Inl (EmbeddingFailure ''timeout'')\<rparr>)
       \<lparr>uid = ''u1''\<rparr> \<lparr>pageContent = ''abcdefgh'', metadata = [''nodeType'' \<mapsto> Str ''note'']\<rparr>
       demo_store
     = (Inl (EmbeddingFailure ''timeout''), demo_store)"
proof -
  have f: "embedDocuments (demo_deps\<lparr>embedDocuments := \<lambda>ts. Inl (EmbeddingFailure ''timeout'')\<rparr>)
     (chunkText (demo_deps\<lparr>embedDocuments := \<lambda>ts. Inl (EmbeddingFailure ''timeout'')\<rparr>)
        (pageContent \<lparr>pageContent = ''abcdefgh'', metadata = [''nodeType'' \<mapsto> Str ''note'']\<rparr>))
     = Inl (EmbeddingFailure ''timeout'')"
    by simp
  from f embedding_failure_aborts_before_write [OF f, of "\<lparr>uid = ''u1''\<rparr>" demo_store]
  show ?thesis by simp
qed

text \<open>
  Claim C5. When the embedding succeeds, \<^verbatim>\<open>indexContent\<close> upserts one point per chunk.
  The point of index \<open>i\<close> has the id generated from the document id (\<open>noteId\<close> when
  \<open>nodeType\<close> is \<open>note\<close>, \<open>resourceId\<close> otherwise), a dash and \<open>i\<close>, the \<open>i\<close>-th embedding
  as vector, and the metadata extended with \<open>seq = i\<close>, \<open>content\<close> the \<open>i\<close>-th chunk and
  \<open>tenantId\<close> the caller's uid. An ingest of the same document id gives the same id at the
  same index, and after a second ingest into a store of distinct ids every id of the
  second batch is stored exactly once, by a point of the second batch (the point
  itself when the ids of the batch are distinct).
\<close>

theorem indexContent_points_identity:
  assumes e1: "embedDocuments d (chunkText d (pageContent doc)) = Inr embeds"
      and e2: "embedDocuments d' (chunkText d' (pageContent doc')) = Inr embeds'"
      and dq: "distinct (map pid (points q))"
  shows
    "indexContent d usr doc q =
       (Inr (estimatePointsSize d (indexContent_points d usr doc embeds)),
        batchSaveData (indexContent_points d usr doc embeds) q)
     \<and> length (indexContent_points d usr doc embeds) = length (chunkText d (pageContent doc))
     \<and> (\<forall>i < length (chunkText d (pageContent doc)).
          indexContent_points d usr doc embeds ! i =
            \<lparr>pid = genResourceUuid d
                     (template (if metadata doc ''nodeType'' = Some (Str ''note'')
                                then metadata doc ''noteId'' else metadata doc ''resourceId'')
                      @ ''-'' @ string_of_nat i),
             vector = nth_opt embeds i,
             payload = (metadata doc)(''seq'' \<mapsto> Num (int i),
                          ''content'' \<mapsto> Str (chunkText d (pageContent doc) ! i),
                          ''tenantId'' \<mapsto> Str (uid usr))\<rparr>)
     \<and> (genResourceUuid d' = genResourceUuid d \<and> docId (metadata doc') = docId (metadata doc) \<longrightarrow>
          (\<forall>i. i < length (chunkText d (pageContent doc)) \<and> i < length (chunkText d' (pageContent doc')) \<longrightarrow>
             pid (indexContent_points d' usr' doc' embeds' ! i)
               = pid (indexContent_points d usr doc embeds ! i)))
     \<and> (\<forall>p \<in> set (indexContent_points d' usr' doc' embeds').
          length (filter (\<lambda>x. pid x = pid p)
             (points (snd (indexContent d' usr' doc' (snd (indexContent d usr doc q)))))) = 1
          \<and> (\<forall>x \<in> set (points (snd (indexContent d' usr' doc' (snd (indexContent d usr doc q))))).
                pid x = pid p \<longrightarrow>
                  x \<in> set (indexContent_points d' usr' doc' embeds')
                  \<and> (distinct (map pid (indexContent_points d' usr' doc' embeds')) \<longrightarrow> x = p)))"
proof -
  let ?pts = "indexContent_points d usr doc embeds"
  let ?pts' = "indexContent_points d' usr' doc' embeds'"
  have first: "indexContent d usr doc q = (Inr (estimatePointsSize d ?pts), batchSaveData ?pts q)"
    using e1 by (simp add: indexContent_def Let_def)
  have second: "indexContent d' usr' doc' q1
                  = (Inr (estimatePointsSize d' ?pts'), batchSaveData ?pts' q1)" for q1
    using e2 by (simp add: indexContent_def Let_def)
  have len: "length ?pts = length (chunkText d (pageContent doc))"
    by (rule indexContent_points_length)
  have nth: "\<forall>i < length (chunkText d (pageContent doc)).
          ?pts ! i =
            \<lparr>pid = genResourceUuid d
                     (template (if metadata doc ''nodeType'' = Some (Str ''note'')
                                then metadata doc ''noteId'' else metadata doc ''resourceId'')
                      @ ''-'' @ string_of_nat i),
             vector = nth_opt embeds i,
             payload = (metadata doc)(''seq'' \<mapsto> Num (int i),
                          ''content'' \<mapsto> Str (chunkText d (pageContent doc) ! i),
                          ''tenantId'' \<mapsto> Str (uid usr))\<rparr>"
    using indexContent_points_nth [of _ d doc usr embeds] by (simp add: docId_def)
  have same: "pid (?pts' ! i) = pid (?pts ! i)"
    if "genResourceUuid d' = genResourceUuid d" "docId (metadata doc') = docId (metadata doc)"
       "i < length (chunkText d (pageContent doc))" "i < length (chunkText d' (pageContent doc'))"
    for i
    using that by (simp add: indexContent_points_nth)
  have store: "snd (indexContent d' usr' doc' (snd (indexContent d usr doc q)))
                 = batchSaveData ?pts' (batchSaveData ?pts q)"
    by (simp add: first second)
  have d1: "distinct (map pid (points (batchSaveData ?pts q)))"
    using dq by (rule batchSaveData_distinct)
  have one: "length (filter (\<lambda>x. pid x = pid p) (points (batchSaveData ?pts' (batchSaveData ?pts q)))) = 1
      \<and> (\<forall>x \<in> set (points (batchSaveData ?pts' (batchSaveData ?pts q))).
            pid x = pid p \<longrightarrow> x \<in> set ?pts' \<and> (distinct (map pid ?pts') \<longrightarrow> x = p))"
    if p: "p \<in> set ?pts'" for p
  proof -
    from batchSaveData_one_per_id [OF d1 p]
    have a: "length (filter (\<lambda>x. pid x = pid p) (points (batchSaveData ?pts' (batchSaveData ?pts q)))) = 1"
      and b: "\<forall>x \<in> set (points (batchSaveData ?pts' (batchSaveData ?pts q))). pid x = pid p \<longrightarrow> x \<in> set ?pts'"
      by blast+
    have "x = p" if "x \<in> set ?pts'" "pid x = pid p" "distinct (map pid ?pts')" for x
      using that p by (meson distinct_map inj_onD)
    with a b show ?thesis by blast
  qed
  from first len nth same one show ?thesis
    unfolding store by blast
qed


text \<open>The theorem of claim C5 at a note ingested twice with different content.\<close>

theorem indexContent_points_identity_witness:
  "embedDocuments demo_deps (chunkText demo_deps (pageContent
       \<lparr>pageContent = ''abcdefgh'', metadata = [''nodeType'' \<mapsto> Str ''note'', ''noteId'' \<mapsto> Str ''n1'']\<rparr>))
     = Inr [[4], [4]]
   \<and> embedDocuments demo_deps (chunkText demo_deps (pageContent
       \<lparr>pageContent = ''ABCDEFGH'', metadata = [''nodeType'' \<mapsto> Str ''note'', ''noteId'' \<mapsto> Str ''n1'']\<rparr>))
     = Inr [[4], [4]]
   \<and> distinct (map pid (points \<lparr>points = [], upsert_calls = 0\<rparr>))
   \<and> pid (indexContent_points demo_deps \<lparr>uid = ''u1''\<rparr>
       \<lparr>pageContent = ''ABCDEFGH'', metadata = [''nodeType'' \<mapsto> Str ''note'', ''noteId'' \<mapsto> Str ''n1'']\<rparr>
       [[4], [4]] ! 1) = ''uuid:n1-1''
   \<and> payload (indexContent_points demo_deps \<lparr>uid = ''u1''\<rparr>
       \<lparr>pageContent = ''ABCDEFGH'', metadata = [''nodeType'' \<mapsto> Str ''note'', ''noteId'' \<mapsto> Str ''n1'']\<rparr>
       [[4], [4]] ! 1) ''content'' = Some (Str ''EFGH'')
   \<and> length (filter (\<lambda>x. pid x = ''uuid:n1-1'')
       (points (snd (indexContent demo_deps \<lparr>uid = ''u1''\<rparr>
          \<lparr>pageContent = ''ABCDEFGH'', metadata = [''nodeType'' \<mapsto> Str ''note'', ''noteId'' \<mapsto> Str ''n1'']\<rparr>
          (snd (indexContent demo_deps \<lparr>uid = ''u1''\<rparr>
             \<lparr>pageContent = ''abcdefgh'', metadata = [''nodeType'' \<mapsto> Str ''note'', ''noteId'' \<mapsto> Str ''n1'']\<rparr>
             \<lparr>points = [], upsert_calls = 0\<rparr>)))))) = 1"
proof -
  let ?md = "[''nodeType'' \<mapsto> Str ''note'', ''noteId'' \<mapsto> Str ''n1'']"
  let ?doc = "\<lparr>pageContent = ''abcdefgh'', metadata = ?md\<rparr>"
  let ?doc' = "\<lparr>pageContent = ''ABCDEFGH'', metadata = ?md\<rparr>"
  let ?u = "\<lparr>uid = ''u1''\<rparr>"
  let ?q = "\<lparr>points = [], upsert_calls = 0\<rparr>"
  let ?pts' = "indexContent_points demo_deps ?u ?doc' [[4], [4]]"
  have c: "chunkText demo_deps (pageContent ?doc) = [''abcd'', ''efgh'']"
    and c': "chunkText demo_deps (pageContent ?doc') = [''ABCD'', ''EFGH'']"
    by (simp_all add: chunkText_def demo_deps_def)
  have e1: "embedDocuments demo_deps (chunkText demo_deps (pageContent ?doc)) = Inr [[4], [4]]"
    and e2: "embedDocuments demo_deps (chunkText demo_deps (pageContent ?doc')) = Inr [[4], [4]]"
    unfolding c c' by (simp_all add: demo_deps_def)
  have dq: "distinct (map pid (points ?q))" by simp
  have s1: "string_of_nat (Suc 0) = ''1''"
    by code_simp
  have g: "genResourceUuid demo_deps = (\<lambda>s. ''uuid:'' @ s)"
    by (simp add: demo_deps_def)
  note th = indexContent_points_identity [OF e2 e2 dq, of ?u ?u]
  from th have "1 < length (chunkText demo_deps (pageContent ?doc')) \<longrightarrow>
      ?pts' ! 1 = \<lparr>pid = genResourceUuid demo_deps
                     (template (if metadata ?doc' ''nodeType'' = Some (Str ''note'')
                                then metadata ?doc' ''noteId'' else metadata ?doc' ''resourceId'')
                      @ ''-'' @ string_of_nat 1),
             vector = nth_opt [[4], [4]] 1,
             payload = (metadata ?doc')(''seq'' \<mapsto> Num (int 1),
                          ''content'' \<mapsto> Str (chunkText demo_deps (pageContent ?doc') ! 1),
                          ''tenantId'' \<mapsto> Str (uid ?u))\<rparr>"
    by blast
  then have p1: "pid (?pts' ! 1) = ''uuid:n1-1''"
    and p2: "payload (?pts' ! 1) ''content'' = Some (Str ''EFGH'')"
    unfolding c' by (simp_all add: s1 g)
  from th have "length ?pts' = 2"
    unfolding c' by simp
  then have mem: "?pts' ! 1 \<in> set ?pts'"
    by simp
  note th2 = indexContent_points_identity [OF e1 e2 dq, of ?u ?u]
  from th2 mem have "length (filter (\<lambda>x. pid x = pid (?pts' ! 1))
       (points (snd (indexContent demo_deps ?u ?doc' (snd (indexContent demo_deps ?u ?doc ?q)))))) = 1"
    by blast
  with e1 e2 dq p1 p2 show ?thesis
    by simp
qed

section \<open>Retrieval and deletion\<close>

lemma search_subset:
  "p \<in> set (search d param f q) \<Longrightarrow> p \<in> set (points q) \<and> matches_filter f p"
proof (cases "qvector param")
  case None
  then show "p \<in> set (search d param f q) \<Longrightarrow> ?thesis" by (simp add: search_def)
next
  case (Some qv)
  assume "p \<in> set (search d param f q)"
  with Some have "p \<in> set (take (topK d)
      (sort_key (\<lambda>p. - similarity d qv (vector p)) (filter (matches_filter f) (points q))))"
    by (simp add: search_def)
  then have "p \<in> set (sort_key (\<lambda>p. - similarity d qv (vector p)) (filter (matches_filter f) (points q)))"
    by (rule in_set_takeD)
  then show ?thesis by simp
qed

lemma similaritySearch_subset:
  "similaritySearch d qry k flt ms = Inr docs \<Longrightarrow> x \<in> set docs \<Longrightarrow> flt x"
proof -
  assume r: "similaritySearch d qry k flt ms = Inr docs" and x: "x \<in> set docs"
  from r obtain qv where
    docs: "docs = take k (map fst
            (sort_key (\<lambda>e. - similarity d qv (Some (snd e))) (filter (\<lambda>e. flt (fst e)) ms)))"
    by (auto simp: similaritySearch_def split: sum.splits)
  from x have "x \<in> set (map fst
            (sort_key (\<lambda>e. - similarity d qv (Some (snd e))) (filter (\<lambda>e. flt (fst e)) ms)))"
    unfolding docs by (rule in_set_takeD)
  then show ?thesis by auto
qed

lemma push_any_spec:
  "push_any k (facet param sel) cs = cs @ spec_facet (sfilter param) (k, sel)"
  by (cases "sfilter param")
     (auto simp: push_any_def facet_def spec_facet_def split: option.splits list.splits)

lemma retrieve_conditions_spec:
  "retrieve_conditions usr param = spec_conditions usr (sfilter param)"
  by (simp add: retrieve_conditions_def Let_def push_any_spec spec_conditions_def)

lemma retrieve_conditions_head:
  "\<exists>cs. retrieve_conditions usr param
          = \<lparr>key = ''tenantId'', match = MatchValue (Str (uid usr))\<rparr> # cs"
  by (simp add: retrieve_conditions_spec spec_conditions_def)

lemma tenant_of_match:
  "matches_filter \<lparr>must = \<lparr>key = ''tenantId'', match = MatchValue (Str u)\<rparr> # cs\<rparr> p \<Longrightarrow>
   payload p ''tenantId'' = Some (Str u)"
  by (simp add: matches_filter_def satisfies_def)

text \<open>
  Claim C1. Every payload \<^verbatim>\<open>retrieve\<close> returns and every document \<^verbatim>\<open>inMemorySearch\<close>
  returns has the \<open>tenantId\<close> of the querying user, whatever filter or predicate the
  caller supplies: the conditions of \<^verbatim>\<open>retrieve\<close> start with the equality of \<open>tenantId\<close>
  and the user's uid, and the predicate handed to the ephemeral index is the caller's
  conjoined with that equality.
\<close>

theorem tenant_isolation:
  "(retrieve d usr param q = Inr ps \<longrightarrow> (\<forall>p \<in> set ps. p ''tenantId'' = Some (Str (uid usr))))
   \<and> (inMemorySearch d usr qry k flt ms = Inr docs \<longrightarrow>
        (\<forall>x \<in> set docs. metadata x ''tenantId'' = Some (Str (uid usr))))
   \<and> (\<exists>cs. retrieve_conditions usr param
          = \<lparr>key = ''tenantId'', match = MatchValue (Str (uid usr))\<rparr> # cs)
   \<and> inMemorySearch d usr qry k flt ms
        = similaritySearch d qry k
            (\<lambda>x. flt x \<and> metadata x ''tenantId'' = Some (Str (uid usr))) ms"
proof -
  have a: "pl ''tenantId'' = Some (Str (uid usr))"
    if r: "retrieve d usr param q = Inr ps" and pl: "pl \<in> set ps" for pl
  proof -
    from r obtain param' where
      ps: "ps = map payload (search d param' \<lparr>must = retrieve_conditions usr param'\<rparr> q)"
      by (auto simp: retrieve_def split: sum.splits)
    from pl ps obtain p where
      p: "p \<in> set (search d param' \<lparr>must = retrieve_conditions usr param'\<rparr> q)" and "pl = payload p"
      by auto
    from retrieve_conditions_head obtain cs where
      "retrieve_conditions usr param' = \<lparr>key = ''tenantId'', match = MatchValue (Str (uid usr))\<rparr> # cs"
      by blast
    with search_subset [OF p] have "payload p ''tenantId'' = Some (Str (uid usr))"
      by (auto dest: tenant_of_match)
    with \<open>pl = payload p\<close> show ?thesis by simp
  qed
  have b: "metadata x ''tenantId'' = Some (Str (uid usr))"
    if "inMemorySearch d usr qry k flt ms = Inr docs" "x \<in> set docs" for x
    using that similaritySearch_subset [of d qry k
        "\<lambda>x. flt x \<and> metadata x ''tenantId'' = Some (Str (uid usr))" ms docs x]
    by (simp add: inMemorySearch_def)
  have c: "inMemorySearch d usr qry k flt ms
        = similaritySearch d qry k
            (\<lambda>x. flt x \<and> metadata x ''tenantId'' = Some (Str (uid usr))) ms"
    by (simp add: inMemorySearch_def)
  from a b c retrieve_conditions_head [of usr param] show ?thesis by blast
qed


text \<open>
  The theorem of claim C1 at stores holding points and documents of two tenants.
\<close>

theorem tenant_isolation_witness:
  "retrieve demo_deps \<lparr>uid = ''u1''\<rparr>
      \<lparr>query = ''q'', qvector = Some [1],
       sfilter = Some \<lparr>nodeTypes = None, urls = None, noteIds = None,
                       resourceIds = Some [''r1''], collectionIds = None\<rparr>\<rparr> demo_store
     = Inr [payload (demo_point ''p1'' ''u1'' ''r1'')]
   \<and> payload (demo_point ''p1'' ''u1'' ''r1'') ''tenantId'' = Some (Str ''u1'')
   \<and> inMemorySearch demo_deps \<lparr>uid = ''u1''\<rparr> ''q'' 10 (\<lambda>x. True)
        [(\<lparr>pageContent = ''a'', metadata = [''tenantId'' \<mapsto> Str ''u2'']\<rparr>, [1]),
         (\<lparr>pageContent = ''b'', metadata = [''tenantId'' \<mapsto> Str ''u1'']\<rparr>, [1])]
     = Inr [\<lparr>pageContent = ''b'', metadata = [''tenantId'' \<mapsto> Str ''u1'']\<rparr>]
   \<and> metadata \<lparr>pageContent = ''b'', metadata = [''tenantId'' \<mapsto> Str ''u1'']\<rparr> ''tenantId''
     = Some (Str ''u1'')"
proof -
  let ?u = "\<lparr>uid = ''u1''\<rparr>"
  let ?param = "\<lparr>query = ''q'', qvector = Some [1],
       sfilter = Some \<lparr>nodeTypes = None, urls = None, noteIds = None,
                       resourceIds = Some [''r1''], collectionIds = None\<rparr>\<rparr>"
  let ?ms = "[(\<lparr>pageContent = ''a'', metadata = [''tenantId'' \<mapsto> Str ''u2'']\<rparr>, [1]),
         (\<lparr>pageContent = ''b'', metadata = [''tenantId'' \<mapsto> Str ''u1'']\<rparr>, [1::int])]"
  have r: "retrieve demo_deps ?u ?param demo_store = Inr [payload (demo_point ''p1'' ''u1'' ''r1'')]"
    by (simp add: retrieve_def with_vector_def retrieve_conditions_def push_any_def facet_def
        search_def matches_filter_def satisfies_def demo_store_def demo_point_def demo_deps_def)
  have m: "inMemorySearch demo_deps ?u ''q'' 10 (\<lambda>x. True) ?ms
     = Inr [\<lparr>pageContent = ''b'', metadata = [''tenantId'' \<mapsto> Str ''u1'']\<rparr>]"
    by (simp add: inMemorySearch_def similaritySearch_def demo_deps_def)
  note th = tenant_isolation [of demo_deps ?u ?param demo_store
      "[payload (demo_point ''p1'' ''u1'' ''r1'')]" "''q''" 10 "\<lambda>x. True" ?ms
      "[\<lparr>pageContent = ''b'', metadata = [''tenantId'' \<mapsto> Str ''u1'']\<rparr>]"]
  from th r have "payload (demo_point ''p1'' ''u1'' ''r1'') ''tenantId'' = Some (Str ''u1'')"
    by simp
  moreover from th m
  have "metadata \<lparr>pageContent = ''b'', metadata = [''tenantId'' \<mapsto> Str ''u1'']\<rparr> ''tenantId''
     = Some (Str ''u1'')"
    by simp
  ultimately show ?thesis using r m by blast
qed

lemma spec_facet_set:
  "c \<in> set (spec_facet f (k, sel)) \<longleftrightarrow>
     (\<exists>l. Option.bind f sel = Some l \<and> l \<noteq> [] \<and> c = \<lparr>key = k, match = MatchAny l\<rparr>)"
proof (cases "Option.bind f sel")
  case None
  then show ?thesis by (simp add: spec_facet_def)
next
  case (Some l)
  then show ?thesis by (cases l) (auto simp: spec_facet_def)
qed

lemma facet_bind: "facet param sel = Option.bind (sfilter param) sel"
  by (cases "sfilter param") (simp_all add: facet_def)

lemma any_of_member:
  "(k, sel) \<in> set [(''nodeType'', nodeTypes), (''url'', urls), (''noteId'', noteIds),
          (''resourceId'', resourceIds), (''collectionId'', collectionIds)] \<Longrightarrow>
   \<lparr>key = k, match = MatchAny l\<rparr> \<in> set (retrieve_conditions usr param)
     \<longleftrightarrow> facet param sel = Some l \<and> l \<noteq> []"
  unfolding retrieve_conditions_spec spec_conditions_def facet_bind
  by (auto simp: spec_facet_set)

text \<open>
  Claim C6. The conditions \<^verbatim>\<open>retrieve\<close> builds are the tenant equality followed by one
  any-of condition per facet, in the order \<open>nodeType\<close>, \<open>url\<close>, \<open>noteId\<close>, \<open>resourceId\<close>,
  \<open>collectionId\<close>, a facet's condition being there exactly when its list is present and
  not empty. With a precomputed vector the search runs on the request as it is; without
  one the query text is embedded first, and a failure of the embedding is the failure
  of \<^verbatim>\<open>retrieve\<close>. The result is the sequence of the payloads of the points found.
\<close>

theorem retrieve_filter_construction:
  "retrieve_conditions usr param = spec_conditions usr (sfilter param)
   \<and> (\<forall>v. qvector param = Some v \<longrightarrow>
         retrieve d usr param q
           = Inr (map payload (search d param \<lparr>must = spec_conditions usr (sfilter param)\<rparr> q)))
   \<and> (\<forall>v. qvector param = None \<and> embedQuery d (query param) = Inr v \<longrightarrow>
         retrieve d usr param q
           = Inr (map payload (search d (param\<lparr>qvector := Some v\<rparr>)
                    \<lparr>must = spec_conditions usr (sfilter param)\<rparr> q)))
   \<and> (\<forall>e. qvector param = None \<and> embedQuery d (query param) = Inl e \<longrightarrow>
         retrieve d usr param q = Inl e)
   \<and> (\<forall>k sel l. (k, sel) \<in> set [(''nodeType'', nodeTypes), (''url'', urls), (''noteId'', noteIds),
          (''resourceId'', resourceIds), (''collectionId'', collectionIds)] \<longrightarrow>
        (\<lparr>key = k, match = MatchAny l\<rparr> \<in> set (retrieve_conditions usr param))
          = (facet param sel = Some l \<and> l \<noteq> []))"
proof -
  have a: "retrieve d usr param q
           = Inr (map payload (search d param \<lparr>must = spec_conditions usr (sfilter param)\<rparr> q))"
    if "qvector param = Some v" for v
    using that by (simp add: retrieve_def with_vector_def retrieve_conditions_spec)
  have b: "retrieve d usr param q
           = Inr (map payload (search d (param\<lparr>qvector := Some v\<rparr>)
                    \<lparr>must = spec_conditions usr (sfilter param)\<rparr> q))"
    if "qvector param = None" "embedQuery d (query param) = Inr v" for v
    using that by (simp add: retrieve_def with_vector_def retrieve_conditions_spec)
  have c: "retrieve d usr param q = Inl e"
    if "qvector param = None" "embedQuery d (query param) = Inl e" for e
    using that by (simp add: retrieve_def with_vector_def)
  from a b c retrieve_conditions_spec [of usr param] any_of_member [of _ _ _ usr param]
  show ?thesis by blast
qed


text \<open>
  The theorem of claim C6 at a request with no vector, an empty facet and two populated
  ones.
\<close>

theorem retrieve_filter_construction_witness:
  "qvector \<lparr>query = ''abc'', qvector = None,
       sfilter = Some \<lparr>nodeTypes = Some [], urls = Some [''x'', ''y''], noteIds = None,
                       resourceIds = None, collectionIds = Some [''c'']\<rparr>\<rparr> = None
   \<and> embedQuery demo_deps (query \<lparr>query = ''abc'', qvector = None,
       sfilter = Some \<lparr>nodeTypes = Some [], urls = Some [''x'', ''y''], noteIds = None,
                       resourceIds = None, collectionIds = Some [''c'']\<rparr>\<rparr>) = Inr [3]
   \<and> retrieve_conditions \<lparr>uid = ''u1''\<rparr> \<lparr>query = ''abc'', qvector = None,
       sfilter = Some \<lparr>nodeTypes = Some [], urls = Some [''x'', ''y''], noteIds = None,
                       resourceIds = None, collectionIds = Some [''c'']\<rparr>\<rparr>
       = [\<lparr>key = ''tenantId'', match = MatchValue (Str ''u1'')\<rparr>,
          \<lparr>key = ''url'', match = MatchAny [''x'', ''y'']\<rparr>,
          \<lparr>key = ''collectionId'', match = MatchAny [''c'']\<rparr>]
   \<and> retrieve demo_deps \<lparr>uid = ''u1''\<rparr> \<lparr>query = ''abc'', qvector = None,
       sfilter = Some \<lparr>nodeTypes = Some [], urls = Some [''x'', ''y''], noteIds = None,
                       resourceIds = None, collectionIds = Some [''c'']\<rparr>\<rparr> demo_store
       = Inr (map payload (search demo_deps \<lparr>query = ''abc'', qvector = Some [3],
                sfilter = Some \<lparr>nodeTypes = Some [], urls = Some [''x'', ''y''], noteIds = None,
                       resourceIds = None, collectionIds = Some [''c'']\<rparr>\<rparr>
            \<lparr>must = [\<lparr>key = ''tenantId'', match = MatchValue (Str ''u1'')\<rparr>,
                     \<lparr>key = ''url'', match = MatchAny [''x'', ''y'']\<rparr>,
                     \<lparr>key = ''collectionId'', match = MatchAny [''c'']\<rparr>]\<rparr> demo_store))"
proof -
  let ?f = "Some \<lparr>nodeTypes = Some [], urls = Some [''x'', ''y''], noteIds = None,
                       resourceIds = None, collectionIds = Some [''c'']\<rparr>"
  let ?param = "\<lparr>query = ''abc'', qvector = None, sfilter = ?f\<rparr>"
  have v: "qvector ?param = None" by simp
  have e: "embedQuery demo_deps (query ?param) = Inr [3]"
    by (simp add: demo_deps_def)
  have sc: "spec_conditions \<lparr>uid = ''u1''\<rparr> (sfilter ?param)
       = [\<lparr>key = ''tenantId'', match = MatchValue (Str ''u1'')\<rparr>,
          \<lparr>key = ''url'', match = MatchAny [''x'', ''y'']\<rparr>,
          \<lparr>key = ''collectionId'', match = MatchAny [''c'']\<rparr>]"
    by (simp add: spec_conditions_def spec_facet_def)
  note th = retrieve_filter_construction [of "\<lparr>uid = ''u1''\<rparr>" ?param demo_deps demo_store]
  from th have c: "retrieve_conditions \<lparr>uid = ''u1''\<rparr> ?param
                    = spec_conditions \<lparr>uid = ''u1''\<rparr> (sfilter ?param)"
    by blast
  from th v e have r: "retrieve demo_deps \<lparr>uid = ''u1''\<rparr> ?param demo_store
        = Inr (map payload (search demo_deps (?param\<lparr>qvector := Some [3]\<rparr>)
                    \<lparr>must = spec_conditions \<lparr>uid = ''u1''\<rparr> (sfilter ?param)\<rparr> demo_store))"
    by blast
  from v e c r show ?thesis
    unfolding sc by simp
qed

text \<open>
  Claim C7. \<^verbatim>\<open>deleteResourceNodes\<close> and \<^verbatim>\<open>deleteNoteNodes\<close> delete with the filter that
  conjoins the equality of \<open>tenantId\<close> and the caller's uid with the equality of
  \<open>resourceId\<close> (of \<open>noteId\<close>) and the owner id. The points left are those not matching
  both, in their order: a point of another tenant or of another owner id stays.
\<close>

theorem delete_scoping:
  "deleteResourceNodes usr rid q
     = batchDelete \<lparr>must = [\<lparr>key = ''tenantId'', match = MatchValue (Str (uid usr))\<rparr>,
                            \<lparr>key = ''resourceId'', match = MatchValue (Str rid)\<rparr>]\<rparr> q
   \<and> deleteNoteNodes usr nid q
     = batchDelete \<lparr>must = [\<lparr>key = ''tenantId'', match = MatchValue (Str (uid usr))\<rparr>,
                            \<lparr>key = ''noteId'', match = MatchValue (Str nid)\<rparr>]\<rparr> q
   \<and> points (deleteResourceNodes usr rid q)
     = filter (\<lambda>p. \<not> (payload p ''tenantId'' = Some (Str (uid usr))
                       \<and> payload p ''resourceId'' = Some (Str rid))) (points q)
   \<and> points (deleteNoteNodes usr nid q)
     = filter (\<lambda>p. \<not> (payload p ''tenantId'' = Some (Str (uid usr))
                       \<and> payload p ''noteId'' = Some (Str nid))) (points q)
   \<and> (\<forall>p \<in> set (points q). payload p ''tenantId'' \<noteq> Some (Str (uid usr)) \<longrightarrow>
         p \<in> set (points (deleteResourceNodes usr rid q))
         \<and> p \<in> set (points (deleteNoteNodes usr nid q)))
   \<and> (\<forall>p \<in> set (points q). payload p ''resourceId'' \<noteq> Some (Str rid) \<longrightarrow>
         p \<in> set (points (deleteResourceNodes usr rid q)))
   \<and> (\<forall>p \<in> set (points q). payload p ''noteId'' \<noteq> Some (Str nid) \<longrightarrow>
         p \<in> set (points (deleteNoteNodes usr nid q)))"
proof -
  have r: "points (deleteResourceNodes usr rid q)
     = filter (\<lambda>p. \<not> (payload p ''tenantId'' = Some (Str (uid usr))
                       \<and> payload p ''resourceId'' = Some (Str rid))) (points q)"
    by (simp add: deleteResourceNodes_def batchDelete_def matches_filter_def satisfies_def)
  have n: "points (deleteNoteNodes usr nid q)
     = filter (\<lambda>p. \<not> (payload p ''tenantId'' = Some (Str (uid usr))
                       \<and> payload p ''noteId'' = Some (Str nid))) (points q)"
    by (simp add: deleteNoteNodes_def batchDelete_def matches_filter_def satisfies_def)
  have "deleteResourceNodes usr rid q
     = batchDelete \<lparr>must = [\<lparr>key = ''tenantId'', match = MatchValue (Str (uid usr))\<rparr>,
                            \<lparr>key = ''resourceId'', match = MatchValue (Str rid)\<rparr>]\<rparr> q"
    by (simp add: deleteResourceNodes_def)
  moreover have "deleteNoteNodes usr nid q
     = batchDelete \<lparr>must = [\<lparr>key = ''tenantId'', match = MatchValue (Str (uid usr))\<rparr>,
                            \<lparr>key = ''noteId'', match = MatchValue (Str nid)\<rparr>]\<rparr> q"
    by (simp add: deleteNoteNodes_def)
  moreover have "\<forall>p \<in> set (points q). payload p ''tenantId'' \<noteq> Some (Str (uid usr)) \<longrightarrow>
         p \<in> set (points (deleteResourceNodes usr rid q))
         \<and> p \<in> set (points (deleteNoteNodes usr nid q))"
    unfolding r n by simp
  moreover have "\<forall>p \<in> set (points q). payload p ''resourceId'' \<noteq> Some (Str rid) \<longrightarrow>
         p \<in> set (points (deleteResourceNodes usr rid q))"
    unfolding r by simp
  moreover have "\<forall>p \<in> set (points q). payload p ''noteId'' \<noteq> Some (Str nid) \<longrightarrow>
         p \<in> set (points (deleteNoteNodes usr nid q))"
    unfolding n by simp
  ultimately show ?thesis using r n by blast
qed

text \<open>
  The theorem of claim C7 at a store of three points, one of them the caller's
  resource.
\<close>

theorem delete_scoping_witness:
  "points (deleteResourceNodes \<lparr>uid = ''u1''\<rparr> ''r1'' demo_store)
     = [demo_point ''p2'' ''u2'' ''r1'', demo_point ''p3'' ''u1'' ''r2'']
   \<and> demo_point ''p2'' ''u2'' ''r1'' \<in> set (points demo_store)
   \<and> payload (demo_point ''p2'' ''u2'' ''r1'') ''tenantId'' \<noteq> Some (Str ''u1'')
   \<and> demo_point ''p2'' ''u2'' ''r1'' \<in> set (points (deleteResourceNodes \<lparr>uid = ''u1''\<rparr> ''r1'' demo_store))"
proof -
  note th = delete_scoping [of "\<lparr>uid = ''u1''\<rparr>" "''r1''" demo_store "''n1''"]
  have m: "demo_point ''p2'' ''u2'' ''r1'' \<in> set (points demo_store)"
    by (simp add: demo_store_def)
  have t: "payload (demo_point ''p2'' ''u2'' ''r1'') ''tenantId'' \<noteq> Some (Str ''u1'')"
    by (simp add: demo_point_def)
  from th have "points (deleteResourceNodes \<lparr>uid = ''u1''\<rparr> ''r1'' demo_store)
     = filter (\<lambda>p. \<not> (payload p ''tenantId'' = Some (Str (uid \<lparr>uid = ''u1''\<rparr>))
                       \<and> payload p ''resourceId'' = Some (Str ''r1''))) (points demo_store)"
    by blast
  then have a: "points (deleteResourceNodes \<lparr>uid = ''u1''\<rparr> ''r1'' demo_store)
     = [demo_point ''p2'' ''u2'' ''r1'', demo_point ''p3'' ''u1'' ''r2'']"
    by (simp add: demo_store_def demo_point_def)
  from th have "\<forall>p \<in> set (points demo_store).
      payload p ''tenantId'' \<noteq> Some (Str (uid \<lparr>uid = ''u1''\<rparr>)) \<longrightarrow>
         p \<in> set (points (deleteResourceNodes \<lparr>uid = ''u1''\<rparr> ''r1'' demo_store))
         \<and> p \<in> set (points (deleteNoteNodes \<lparr>uid = ''u1''\<rparr> ''n1'' demo_store))"
    by blast
  with m t have "demo_point ''p2'' ''u2'' ''r1''
      \<in> set (points (deleteResourceNodes \<lparr>uid = ''u1''\<rparr> ''r1'' demo_store))"
    by simp
  with a m t show ?thesis by blast
qed

section \<open>The remote reader and its cache\<close>

lemma map_of_filter_other:
  "map_of (filter (\<lambda>e. fst e \<noteq> k) c) x = (if x = k then None else map_of c x)"
  by (induction c) auto

lemma lru_get_contents: "map_of (snd (lru_get k c)) = map_of c"
  by (auto simp: lru_get_def map_of_filter_other fun_eq_iff split: option.splits)

lemma lru_get_absent: "map_of c k = None \<Longrightarrow> lru_get k c = (Undefined, c)"
  by (simp add: lru_get_def)

lemma lru_get_present:
  "map_of c k = Some v \<Longrightarrow> lru_get k c = (v, (k, v) # filter (\<lambda>e. fst e \<noteq> k) c)"
  by (simp add: lru_get_def)

lemma crawl_miss:
  assumes "lru_get url (cache st) = (hit, c1)" and "\<not> truthy hit"
      and "fetch d (READER_URL @ url) = Inr r"
  shows "crawlFromRemoteReader d url st =
     (if status r \<noteq> 200 then
        (Inl (Error (''call remote reader failed: '' @ string_of_nat (status r)
               @ '' '' @ statusText r @ '' '' @ text_method r)),
         st\<lparr>cache := c1, requests := requests st @ [READER_URL @ url]\<rparr>)
      else
        (case json_result r of
           Inl e \<Rightarrow> (Inl e, st\<lparr>cache := c1, requests := requests st @ [READER_URL @ url]\<rparr>)
         | Inr data \<Rightarrow>
             if \<not> truthy data then
               (Inl (Error (''invalid data from remote reader: '' @ text_method r)),
                st\<lparr>cache := c1, requests := requests st @ [READER_URL @ url]\<rparr>)
             else (Inr data, st\<lparr>cache := lru_set url data c1,
                                  requests := requests st @ [READER_URL @ url]\<rparr>)))"
  using assms by (simp add: crawlFromRemoteReader_def Let_def split: sum.splits)

lemma crawl_offline:
  assumes "lru_get url (cache st) = (hit, c1)" and "\<not> truthy hit"
      and "fetch d (READER_URL @ url) = Inl e"
  shows "crawlFromRemoteReader d url st
           = (Inl e, st\<lparr>cache := c1, requests := requests st @ [READER_URL @ url]\<rparr>)"
  using assms by (simp add: crawlFromRemoteReader_def Let_def)

lemma crawl_hit:
  assumes "map_of (cache st) url = Some v" and "truthy v"
  shows "crawlFromRemoteReader d url st
           = (Inr v, st\<lparr>cache := (url, v) # filter (\<lambda>e. fst e \<noteq> url) (cache st)\<rparr>)"
  using assms by (simp add: crawlFromRemoteReader_def lru_get_present)

text \<open>
  Claim C8, as the code has it. On a cache miss, when the reader answers with a status
  other than 200, with a payload that does not parse, or with a payload that parses to
  a falsy value, \<^verbatim>\<open>crawlFromRemoteReader\<close> fails and returns no data. For a status other
  than 200 the error's message starts with \<open>call remote reader failed:\<close>, the status
  code and the status text, so it carries both; for a payload that does not parse the
  error is the parser's; for a falsy payload the message starts with
  \<open>invalid data from remote reader:\<close>. In each case the cache holds the entries it held
  (the URL is not stored), and it is the same list when the URL was not in it.
\<close>

theorem crawl_failure_semantics:
  assumes miss: "\<not> truthy (fst (lru_get url (cache st)))"
      and resp: "fetch d (READER_URL @ url) = Inr r"
      and bad: "status r \<noteq> 200 \<or> (\<exists>e. json_result r = Inl e)
                \<or> (\<exists>data. json_result r = Inr data \<and> \<not> truthy data)"
  shows
    "(\<exists>e. fst (crawlFromRemoteReader d url st) = Inl e)
     \<and> (status r \<noteq> 200 \<longrightarrow>
          (\<exists>rest. fst (crawlFromRemoteReader d url st)
             = Inl (Error (''call remote reader failed: '' @ string_of_nat (status r)
                           @ '' '' @ statusText r @ rest)))
          \<and> (\<forall>e. fst (crawlFromRemoteReader d url st) = Inl e \<longrightarrow>
                 carries e (string_of_nat (status r)) \<and> carries e (statusText r)))
     \<and> (status r = 200 \<longrightarrow> (\<forall>e. json_result r = Inl e \<longrightarrow>
          fst (crawlFromRemoteReader d url st) = Inl e))
     \<and> (status r = 200 \<longrightarrow> (\<forall>data. json_result r = Inr data \<and> \<not> truthy data \<longrightarrow>
          (\<exists>rest. fst (crawlFromRemoteReader d url st)
             = Inl (Error (''invalid data from remote reader: '' @ rest)))))
     \<and> map_of (cache (snd (crawlFromRemoteReader d url st))) = map_of (cache st)
     \<and> (map_of (cache st) url = None \<longrightarrow>
          cache (snd (crawlFromRemoteReader d url st)) = cache st)"
proof -
  let ?res = "crawlFromRemoteReader d url st"
  obtain hit c1 where g: "lru_get url (cache st) = (hit, c1)"
    by (cases "lru_get url (cache st)")
  with miss have nt: "\<not> truthy hit" by simp
  let ?st1 = "st\<lparr>cache := c1, requests := requests st @ [READER_URL @ url]\<rparr>"
  note c = crawl_miss [OF g nt resp]
  have non200: "?res = (Inl (Error (''call remote reader failed: '' @ string_of_nat (status r)
                   @ '' '' @ statusText r @ '' '' @ text_method r)), ?st1)"
    if "status r \<noteq> 200"
    using that c by simp
  have synt: "?res = (Inl e, ?st1)" if "status r = 200" "json_result r = Inl e" for e
    using that c by simp
  have falsy: "?res = (Inl (Error (''invalid data from remote reader: '' @ text_method r)), ?st1)"
    if "status r = 200" "json_result r = Inr data" "\<not> truthy data" for data
    using that c by simp
  from bad non200 synt falsy
  have st: "snd ?res = ?st1" and err: "\<exists>e. fst ?res = Inl e"
    by (metis snd_conv, metis fst_conv)
  have a: "\<exists>rest. fst ?res = Inl (Error (''call remote reader failed: '' @ string_of_nat (status r)
                           @ '' '' @ statusText r @ rest))"
    if "status r \<noteq> 200"
    using non200 [OF that] by simp
  have b: "carries e (string_of_nat (status r)) \<and> carries e (statusText r)"
    if "status r \<noteq> 200" "fst ?res = Inl e" for e
  proof -
    from non200 [OF that(1)] that(2)
    have e: "e = Error (''call remote reader failed: '' @ string_of_nat (status r)
                   @ '' '' @ statusText r @ '' '' @ text_method r)"
      by simp
    have "sublist (string_of_nat (status r)) (''call remote reader failed: '' @ string_of_nat (status r)
                   @ ('' '' @ statusText r @ '' '' @ text_method r))"
      by (rule sublist_appendI)
    moreover have "sublist (statusText r) ((''call remote reader failed: '' @ string_of_nat (status r)
                   @ '' '') @ statusText r @ ('' '' @ text_method r))"
      by (rule sublist_appendI)
    ultimately show ?thesis
      unfolding e carries_def by simp
  qed
  have d: "\<exists>rest. fst ?res = Inl (Error (''invalid data from remote reader: '' @ rest))"
    if "status r = 200" "json_result r = Inr data" "\<not> truthy data" for data
    using falsy [OF that] by simp
  have m: "map_of (cache (snd ?res)) = map_of (cache st)"
    unfolding st using lru_get_contents [of url "cache st"] g by simp
  have i: "cache (snd ?res) = cache st" if "map_of (cache st) url = None"
    unfolding st using lru_get_absent [OF that] g by simp
  have c2: "status r \<noteq> 200 \<longrightarrow>
          (\<exists>rest. fst ?res
             = Inl (Error (''call remote reader failed: '' @ string_of_nat (status r)
                           @ '' '' @ statusText r @ rest)))
          \<and> (\<forall>e. fst ?res = Inl e \<longrightarrow>
                 carries e (string_of_nat (status r)) \<and> carries e (statusText r))"
    using a b by blast
  have c3: "status r = 200 \<longrightarrow> (\<forall>e. json_result r = Inl e \<longrightarrow> fst ?res = Inl e)"
    using synt by simp
  have c4: "status r = 200 \<longrightarrow> (\<forall>data. json_result r = Inr data \<and> \<not> truthy data \<longrightarrow>
          (\<exists>rest. fst ?res = Inl (Error (''invalid data from remote reader: '' @ rest))))"
    using d by blast
  have c6: "map_of (cache st) url = None \<longrightarrow> cache (snd ?res) = cache st"
    using i by blast
  show ?thesis
    using err c2 c3 c4 m c6 by (intro conjI)
qed


text \<open>
  The theorem of claim C8 at a reader answering 503.
\<close>

theorem crawl_failure_semantics_witness:
  "\<not> truthy (fst (lru_get ''http://a'' (cache empty_crawl_state)))
   \<and> fetch (demo_deps\<lparr>fetch := \<lambda>u. Inr (demo_response 503 ''Service Unavailable'' ''busy''
                                            (Inl (JsonSyntaxError ''Unexpected token'')))\<rparr>)
        (READER_URL @ ''http://a'')
       = Inr (demo_response 503 ''Service Unavailable'' ''busy''
                (Inl (JsonSyntaxError ''Unexpected token'')))
   \<and> status (demo_response 503 ''Service Unavailable'' ''busy''
                (Inl (JsonSyntaxError ''Unexpected token''))) \<noteq> 200
   \<and> fst (crawlFromRemoteReader
        (demo_deps\<lparr>fetch := \<lambda>u. Inr (demo_response 503 ''Service Unavailable'' ''busy''
                                       (Inl (JsonSyntaxError ''Unexpected token'')))\<rparr>)
        ''http://a'' empty_crawl_state)
       = Inl (Error ''call remote reader failed: 503 Service Unavailable function text() { [native code] }'')
   \<and> carries (Error ''call remote reader failed: 503 Service Unavailable function text() { [native code] }'')
        (string_of_nat 503)
   \<and> cache (snd (crawlFromRemoteReader
        (demo_deps\<lparr>fetch := \<lambda>u. Inr (demo_response 503 ''Service Unavailable'' ''busy''
                                       (Inl (JsonSyntaxError ''Unexpected token'')))\<rparr>)
        ''http://a'' empty_crawl_state))
       = cache empty_crawl_state"
proof -
  let ?r = "demo_response 503 ''Service Unavailable'' ''busy'' (Inl (JsonSyntaxError ''Unexpected token''))"
  let ?d = "demo_deps\<lparr>fetch := \<lambda>u. Inr ?r\<rparr>"
  have miss: "\<not> truthy (fst (lru_get ''http://a'' (cache empty_crawl_state)))"
    by (simp add: lru_get_def empty_crawl_state_def)
  have resp: "fetch ?d (READER_URL @ ''http://a'') = Inr ?r"
    by simp
  have st: "status ?r \<noteq> 200"
    by (simp add: demo_response_def)
  have absent: "map_of (cache empty_crawl_state) ''http://a'' = None"
    by (simp add: empty_crawl_state_def)
  have n: "string_of_nat 503 = ''503''"
    by code_simp
  have res: "fst (crawlFromRemoteReader ?d ''http://a'' empty_crawl_state)
       = Inl (Error ''call remote reader failed: 503 Service Unavailable function text() { [native code] }'')"
    by (simp add: crawlFromRemoteReader_def lru_get_def empty_crawl_state_def demo_response_def n)
  note th = crawl_failure_semantics [OF miss resp disjI1 [OF st]]
  from th st res
  have "carries (Error ''call remote reader failed: 503 Service Unavailable function text() { [native code] }'')
        (string_of_nat 503)"
    by (simp add: demo_response_def)
  moreover from th absent
  have "cache (snd (crawlFromRemoteReader ?d ''http://a'' empty_crawl_state)) = cache empty_crawl_state"
    by blast
  ultimately show ?thesis
    using miss resp st res by blast
qed

text \<open>
  Claim C8 as stated fails for the payload that is not usable: when the reader answers
  200 with the payload \<open>null\<close>, the error's message is \<open>invalid data from remote reader:\<close>
  followed by the rendering of the method \<^verbatim>\<open>response.text\<close>; it carries neither the
  status, nor the status text, nor the payload.
\<close>

theorem crawl_error_carries_status_counterexample:
  "fst (crawlFromRemoteReader
        (demo_deps\<lparr>fetch := \<lambda>u. Inr (demo_response 200 ''OK'' ''null'' (Inr Null))\<rparr>)
        ''http://a'' empty_crawl_state)
     = Inl (Error ''invalid data from remote reader: function text() { [native code] }'')
   \<and> \<not> carries (Error ''invalid data from remote reader: function text() { [native code] }'')
          (string_of_nat 200)
   \<and> \<not> carries (Error ''invalid data from remote reader: function text() { [native code] }'')
          ''OK''
   \<and> \<not> carries (Error ''invalid data from remote reader: function text() { [native code] }'')
          ''null''"
proof -
  have res: "fst (crawlFromRemoteReader
        (demo_deps\<lparr>fetch := \<lambda>u. Inr (demo_response 200 ''OK'' ''null'' (Inr Null))\<rparr>)
        ''http://a'' empty_crawl_state)
     = Inl (Error ''invalid data from remote reader: function text() { [native code] }'')"
    by (simp add: crawlFromRemoteReader_def lru_get_def empty_crawl_state_def demo_response_def)
  have a: "\<not> carries (Error ''invalid data from remote reader: function text() { [native code] }'')
          (string_of_nat 200)"
    by code_simp
  have b: "\<not> carries (Error ''invalid data from remote reader: function text() { [native code] }'')
          ''OK''"
    by code_simp
  have c: "\<not> carries (Error ''invalid data from remote reader: function text() { [native code] }'')
          ''null''"
    by code_simp
  from res a b c show ?thesis by blast
qed

lemma cached_within_lookup: "cached_within n u v c \<Longrightarrow> map_of c u = Some v"
proof -
  assume "cached_within n u v c"
  then obtain pre post where c: "c = pre @ (u, v) # post" and pre: "u \<notin> fst ` set pre"
    unfolding cached_within_def by blast
  from pre have "map_of pre u = None"
    by (simp add: map_of_eq_None_iff)
  then show ?thesis
    unfolding c by (simp add: map_add_def)
qed

lemma cached_within_front: "cached_within 0 u v ((u, v) # c)"
  unfolding cached_within_def by (rule exI [of _ "[]"]) simp

lemma cached_within_mono: "cached_within n u v c \<Longrightarrow> n \<le> m \<Longrightarrow> cached_within m u v c"
  unfolding cached_within_def using le_trans by blast

lemma cached_within_filter:
  assumes "cached_within n u v c" and "k \<noteq> u"
  shows "cached_within n u v (filter (\<lambda>e. fst e \<noteq> k) c)"
proof -
  from assms(1) obtain pre post where
    c: "c = pre @ (u, v) # post" and pre: "u \<notin> fst ` set pre" and len: "length pre \<le> n"
    unfolding cached_within_def by blast
  let ?P = "\<lambda>e. fst e \<noteq> k"
  have "filter ?P c = filter ?P pre @ (u, v) # filter ?P post"
    unfolding c using assms(2) by simp
  moreover have "u \<notin> fst ` set (filter ?P pre)"
    using pre by auto
  moreover have "length (filter ?P pre) \<le> n"
    using len length_filter_le [of ?P pre] by linarith
  ultimately show ?thesis
    unfolding cached_within_def by blast
qed

lemma cached_within_Cons:
  assumes "cached_within n u v c" and "k \<noteq> u"
  shows "cached_within (Suc n) u v ((k, x) # c)"
proof -
  from assms(1) obtain pre post where
    c: "c = pre @ (u, v) # post" and pre: "u \<notin> fst ` set pre" and len: "length pre \<le> n"
    unfolding cached_within_def by blast
  have "(k, x) # c = ((k, x) # pre) @ (u, v) # post"
    unfolding c by simp
  moreover have "u \<notin> fst ` set ((k, x) # pre)"
    using pre assms(2) by auto
  moreover have "length ((k, x) # pre) \<le> Suc n"
    using len by simp
  ultimately show ?thesis
    unfolding cached_within_def by blast
qed

lemma cached_within_take:
  assumes "cached_within n u v c" and "n < m"
  shows "cached_within n u v (take m c)"
proof -
  from assms(1) obtain pre post where
    c: "c = pre @ (u, v) # post" and pre: "u \<notin> fst ` set pre" and len: "length pre \<le> n"
    unfolding cached_within_def by blast
  from len assms(2) obtain j where j: "m - length pre = Suc j"
    by (metis Suc_diff_Suc le_less_trans)
  have "take m c = pre @ (u, v) # take j post"
    unfolding c using len assms(2) j by simp
  with pre len show ?thesis
    unfolding cached_within_def by blast
qed

lemma crawl_cache_shape:
  "cache (snd (crawlFromRemoteReader d k st)) = cache st
   \<or> (\<exists>x. cache (snd (crawlFromRemoteReader d k st)) = (k, x) # filter (\<lambda>e. fst e \<noteq> k) (cache st))
   \<or> (\<exists>x. cache (snd (crawlFromRemoteReader d k st))
            = take cache_max ((k, x) # filter (\<lambda>e. fst e \<noteq> k) (cache st)))"
  by (cases "map_of (cache st) k")
     (auto simp: crawlFromRemoteReader_def lru_get_def lru_set_def Let_def
           split: sum.splits)


lemma crawl_step_cached:
  assumes c: "cached_within n u v (cache st)" and k: "k \<noteq> u" and n: "Suc n < cache_max"
  shows "cached_within (Suc n) u v (cache (snd (crawlFromRemoteReader d k st)))"
proof -
  have f: "cached_within n u v (filter (\<lambda>e. fst e \<noteq> k) (cache st))"
    using c k by (rule cached_within_filter)
  from crawl_cache_shape [of d k st] consider
      (same) "cache (snd (crawlFromRemoteReader d k st)) = cache st"
    | (front) x where "cache (snd (crawlFromRemoteReader d k st))
                         = (k, x) # filter (\<lambda>e. fst e \<noteq> k) (cache st)"
    | (stored) x where "cache (snd (crawlFromRemoteReader d k st))
                         = take cache_max ((k, x) # filter (\<lambda>e. fst e \<noteq> k) (cache st))"
    by blast
  then show ?thesis
  proof cases
    case same
    with c show ?thesis by (simp add: cached_within_mono)
  next
    case front
    with cached_within_Cons [OF f k] show ?thesis by simp
  next
    case stored
    with cached_within_take [OF cached_within_Cons [OF f k] n] show ?thesis by simp
  qed
qed

lemma crawl_all_cached:
  "cached_within n u v (cache st) \<Longrightarrow> u \<notin> snd ` set dus \<Longrightarrow> n + length dus < cache_max \<Longrightarrow>
   cached_within (n + length dus) u v (cache (crawl_all dus st))"
proof (induction dus arbitrary: st n)
  case Nil
  then show ?case by simp
next
  case (Cons du dus)
  from Cons.prems have k: "snd du \<noteq> u" and rest: "u \<notin> snd ` set dus"
    and n: "Suc n < cache_max" and m: "Suc n + length dus < cache_max"
    by auto
  have "cached_within (Suc n) u v (cache (snd (crawlFromRemoteReader (fst du) (snd du) st)))"
    using Cons.prems(1) k n by (rule crawl_step_cached)
  from Cons.IH [OF this rest m] show ?case by simp
qed

lemma crawl_success_front:
  assumes "crawlFromRemoteReader d u st = (Inr v, st1)"
  shows "truthy v \<and> (\<exists>c. cache st1 = (u, v) # c)"
proof (cases "truthy (fst (lru_get u (cache st)))")
  case True
  then obtain hit where h: "map_of (cache st) u = Some hit" and t: "truthy hit"
    by (auto simp: lru_get_def split: option.splits)
  from crawl_hit [OF h t, of d] assms show ?thesis
    using t by auto
next
  case False
  obtain hit c1 where g: "lru_get u (cache st) = (hit, c1)"
    by (cases "lru_get u (cache st)")
  with False have nt: "\<not> truthy hit" by simp
  show ?thesis
  proof (cases "fetch d (READER_URL @ u)")
    case (Inl e)
    from crawl_offline [OF g nt Inl] assms show ?thesis by simp
  next
    case (Inr r)
    from crawl_miss [OF g nt Inr] assms show ?thesis
      by (auto simp: lru_set_def cache_max_def split: if_splits sum.splits)
  qed
qed

text \<open>
  Claim C9. After a call of \<^verbatim>\<open>crawlFromRemoteReader\<close> for \<open>u\<close> that returns a result, the
  cache holds that result under \<open>u\<close>. After fewer than 1000 further calls for other
  URLs, whatever the network answers them, a call for \<open>u\<close> returns the same result and
  sends no request, whatever the network would answer.
\<close>

theorem crawl_cache_correctness:
  assumes ok: "crawlFromRemoteReader d u st = (Inr v, st1)"
      and others: "u \<notin> snd ` set dus"
      and window: "length dus < cache_max"
  shows "fst (lru_get u (cache st1)) = v
         \<and> fst (crawlFromRemoteReader d' u (crawl_all dus st1)) = Inr v
         \<and> requests (snd (crawlFromRemoteReader d' u (crawl_all dus st1)))
             = requests (crawl_all dus st1)"
proof -
  from crawl_success_front [OF ok] obtain c where t: "truthy v" and c: "cache st1 = (u, v) # c"
    by blast
  have stored: "fst (lru_get u (cache st1)) = v"
    unfolding c by (simp add: lru_get_def)
  have "cached_within 0 u v (cache st1)"
    unfolding c by (rule cached_within_front)
  from crawl_all_cached [OF this others] window
  have "cached_within (length dus) u v (cache (crawl_all dus st1))"
    by simp
  then have "map_of (cache (crawl_all dus st1)) u = Some v"
    by (rule cached_within_lookup)
  from crawl_hit [OF this t, of d'] stored show ?thesis
    by simp
qed

text \<open>
  The theorem of claim C9: a fetch of one URL, a fetch of another, and the first URL
  again with the network unreachable.
\<close>

theorem crawl_cache_correctness_witness:
  "crawlFromRemoteReader
      (demo_deps\<lparr>fetch := \<lambda>u. Inr (demo_response 200 ''OK'' ''[7]''
                                     (Inr (Array [Number 7])))\<rparr>)
      ''http://a'' empty_crawl_state
     = (Inr (Array [Number 7]),
        \<lparr>cache = [(''http://a'', Array [Number 7])],
         requests = [''https://r.jina.ai/http://a'']\<rparr>)
   \<and> ''http://a'' \<notin> snd ` set
        [(demo_deps\<lparr>fetch := \<lambda>u. Inr (demo_response 200 ''OK'' ''[1]'' (Inr (Array [Number 1])))\<rparr>,
          ''http://b'')]
   \<and> length
        [(demo_deps\<lparr>fetch := \<lambda>u. Inr (demo_response 200 ''OK'' ''[1]'' (Inr (Array [Number 1])))\<rparr>,
          ''http://b'')] < cache_max
   \<and> fst (crawlFromRemoteReader demo_deps ''http://a''
        (crawl_all
          [(demo_deps\<lparr>fetch := \<lambda>u. Inr (demo_response 200 ''OK'' ''[1]'' (Inr (Array [Number 1])))\<rparr>,
            ''http://b'')]
          \<lparr>cache = [(''http://a'', Array [Number 7])],
           requests = [''https://r.jina.ai/http://a'']\<rparr>))
     = Inr (Array [Number 7])
   \<and> requests (snd (crawlFromRemoteReader demo_deps ''http://a''
        (crawl_all
          [(demo_deps\<lparr>fetch := \<lambda>u. Inr (demo_response 200 ''OK'' ''[1]'' (Inr (Array [Number 1])))\<rparr>,
            ''http://b'')]
          \<lparr>cache = [(''http://a'', Array [Number 7])],
           requests = [''https://r.jina.ai/http://a'']\<rparr>)))
     = requests (crawl_all
          [(demo_deps\<lparr>fetch := \<lambda>u. Inr (demo_response 200 ''OK'' ''[1]'' (Inr (Array [Number 1])))\<rparr>,
            ''http://b'')]
          \<lparr>cache = [(''http://a'', Array [Number 7])],
           requests = [''https://r.jina.ai/http://a'']\<rparr>)"
proof -
  let ?d = "demo_deps\<lparr>fetch := \<lambda>u. Inr (demo_response 200 ''OK'' ''[7]''
                                     (Inr (Array [Number 7])))\<rparr>"
  let ?dus = "[(demo_deps\<lparr>fetch := \<lambda>u. Inr (demo_response 200 ''OK'' ''[1]'' (Inr (Array [Number 1])))\<rparr>,
          ''http://b'')]"
  let ?st1 = "\<lparr>cache = [(''http://a'', Array [Number 7])],
         requests = [''https://r.jina.ai/http://a'']\<rparr>"
  have ok: "crawlFromRemoteReader ?d ''http://a'' empty_crawl_state
              = (Inr (Array [Number 7]), ?st1)"
    by (simp add: crawlFromRemoteReader_def lru_get_def lru_set_def cache_max_def
        empty_crawl_state_def demo_response_def READER_URL_def)
  have others: "''http://a'' \<notin> snd ` set ?dus"
    by simp
  have window: "length ?dus < cache_max"
    by (simp add: cache_max_def)
  from crawl_cache_correctness [OF ok others window, of demo_deps] ok others window
  show ?thesis by blast
qed

end
